theory Spec2Isabelle
  imports Main "HOL-Library.Word"
begin

section \<open>Machine types and device buffers\<close>

text \<open>
  The source computes sizes, strides and offsets in \<^verbatim>\<open>size_t\<close> (64 bits, wrapping) and
  keeps shapes in \<^verbatim>\<open>std::vector<int>\<close> (32 bits, signed). CUDA's built-in index variables
  (\<^verbatim>\<open>blockIdx\<close>, \<^verbatim>\<open>blockDim\<close>, \<^verbatim>\<open>threadIdx\<close>) are \<^verbatim>\<open>unsigned int\<close>. An \<^verbatim>\<open>int\<close> that
  meets a \<^verbatim>\<open>size_t\<close> in an expression is sign-extended (\<open>scast\<close>); an \<^verbatim>\<open>unsigned int\<close> is
  zero-extended (\<open>ucast\<close>).
\<close>

type_synonym size_t = "64 word"
type_synonym c_int = "32 word"
type_synonym c_uint = "32 word"

text \<open>
  What can go wrong in the source is undefined behaviour there; here it is a value.
\<close>

datatype fault = OutOfBounds | DivideByZero | NullNode | SignedOverflow

text \<open>
  A device buffer is a list of cells. \<open>None\<close> is a cell that no kernel and no copy has
  written since \<^verbatim>\<open>cudaMalloc\<close>: its content is indeterminate. The element type \<^verbatim>\<open>T\<close> of the
  template is the type variable \<open>'a\<close>; its native arithmetic is that of the type classes.
\<close>

type_synonym 'a buffer = "'a option list"

definition lift2 :: "('a \<Rightarrow> 'a \<Rightarrow> 'a) \<Rightarrow> 'a option \<Rightarrow> 'a option \<Rightarrow> 'a option" where
  "lift2 f x y = (case x of None \<Rightarrow> None | Some a \<Rightarrow> (case y of None \<Rightarrow> None | Some b \<Rightarrow> Some (f a b)))"

section \<open>Tensor\<close>

text \<open>
  \<^verbatim>\<open>class Tensor\<close>. The field \<open>data\<close> holds the content of the device buffer the pointer
  \<^verbatim>\<open>T* data\<close> refers to: no operation of the source writes to a buffer after the operation
  that allocated it has returned, so a copy of a tensor (also a transposed view) reads the
  same cells for ever and the content can stand for the pointer. \<open>backward\<close> is the
  pointer to the autograd node, an address in the node store, \<open>None\<close> for the null pointer.
  The byte count \<^verbatim>\<open>size\<close> is left out: the buffer is taken to hold \<open>n_elements\<close> cells.
\<close>

record 'a Tensor =
  data :: "'a buffer"
  shape :: "c_int list"
  rank :: nat
  strides :: "size_t list"
  n_elements :: size_t
  backward :: "nat option"

text \<open>
  The loop of the shape constructor,
  \<^verbatim>\<open>for (int i = rank - 1; i >= 0; --i) { strides[i] = stride; stride *= shape[i]; }\<close>.
  The second argument is \<open>i + 1\<close>.
\<close>

fun stride_loop :: "c_int list \<Rightarrow> nat \<Rightarrow> size_t \<Rightarrow> size_t list \<Rightarrow> size_t list" where
  "stride_loop shp 0 stride strds = strds"
| "stride_loop shp (Suc i) stride strds =
     stride_loop shp i (stride * scast (shp ! i)) (strds[i := stride])"

text \<open>
  \<^verbatim>\<open>std::accumulate(shape.begin(), shape.end(), static_cast<size_t>(1), std::multiplies<size_t>())\<close>
\<close>

definition count_elements :: "c_int list \<Rightarrow> size_t" where
  "count_elements shp = foldl (\<lambda>acc d. acc * scast d) 1 shp"

text \<open>\<^verbatim>\<open>Tensor(const std::vector<int>& shape)\<close>: a fresh buffer, dense row-major strides.\<close>

definition Tensor_ctor :: "c_int list \<Rightarrow> 'a Tensor" where
  "Tensor_ctor shp =
     \<lparr> data = replicate (unat (count_elements shp)) None,
       shape = shp,
       rank = length shp,
       strides = stride_loop shp (length shp) 1 (replicate (length shp) 0),
       n_elements = count_elements shp,
       backward = None \<rparr>"

text \<open>\<^verbatim>\<open>Tensor() = default\<close>: every member value-initialised.\<close>

definition Tensor_default :: "'a Tensor" where
  "Tensor_default =
     \<lparr> data = [], shape = [], rank = 0, strides = [], n_elements = 0, backward = None \<rparr>"

text \<open>
  \<^verbatim>\<open>transpose(size_t dim1, size_t dim2)\<close>: a copy of the tensor with two entries of shape
  and strides exchanged. \<^verbatim>\<open>std::vector::operator[]\<close> does not check its index; an index
  outside the vector is a fault.
\<close>

definition transpose :: "size_t \<Rightarrow> size_t \<Rightarrow> 'a Tensor \<Rightarrow> fault + 'a Tensor" where
  "transpose dim1 dim2 t =
     (if unat dim1 < length (shape t) \<and> unat dim2 < length (shape t)
         \<and> unat dim1 < length (strides t) \<and> unat dim2 < length (strides t)
      then Inr (t\<lparr> shape := (shape t)[unat dim1 := shape t ! unat dim2, unat dim2 := shape t ! unat dim1],
                  strides := (strides t)[unat dim1 := strides t ! unat dim2, unat dim2 := strides t ! unat dim1] \<rparr>)
      else Inl OutOfBounds)"

text \<open>
  \<^verbatim>\<open>from_vector\<close> and \<^verbatim>\<open>from_scalar\<close>: the constructor, then a host array of \<open>n_elements\<close>
  cells copied to the device. \<^verbatim>\<open>std::copy\<close> writes past the host array when the vector is
  longer than it; a shorter vector leaves the tail of the array as \<^verbatim>\<open>malloc\<close> gave it.
\<close>

definition from_vector :: "'a list \<Rightarrow> c_int list \<Rightarrow> fault + 'a Tensor" where
  "from_vector vector shp =
     (let tensor = Tensor_ctor shp in
      if length vector \<le> unat (n_elements tensor)
      then Inr (tensor\<lparr> data := map Some vector
                                  @ replicate (unat (n_elements tensor) - length vector) None \<rparr>)
      else Inl OutOfBounds)"

definition from_scalar :: "'a \<Rightarrow> c_int list \<Rightarrow> 'a Tensor" where
  "from_scalar scalar shp =
     (let tensor = Tensor_ctor shp in
      tensor\<lparr> data := replicate (unat (n_elements tensor)) (Some scalar) \<rparr>)"

section \<open>Loops, loads and stores\<close>

text \<open>
  A counted loop whose body can fault: the body runs for each value of the counter in
  turn, and the first fault ends the loop. The \<^verbatim>\<open>int\<close> counters of the source count
  dimensions and stay far below \<open>2 ^ 31\<close>; they are natural numbers here.
\<close>

fun for_each :: "'i list \<Rightarrow> ('i \<Rightarrow> 's \<Rightarrow> fault + 's) \<Rightarrow> 's \<Rightarrow> fault + 's" where
  "for_each [] body s = Inr s"
| "for_each (i # is) body s =
     (case body i s of Inl e \<Rightarrow> Inl e | Inr s' \<Rightarrow> for_each is body s')"

text \<open>Reading and writing one cell of a buffer or one entry of an array, with the bound checked.\<close>

definition load :: "'b list \<Rightarrow> nat \<Rightarrow> fault + 'b" where
  "load xs i = (if i < length xs then Inr (xs ! i) else Inl OutOfBounds)"

definition store :: "'b list \<Rightarrow> nat \<Rightarrow> 'b \<Rightarrow> fault + 'b list" where
  "store xs i v = (if i < length xs then Inr (xs[i := v]) else Inl OutOfBounds)"

section \<open>Kernels\<close>

text \<open>
  \<^verbatim>\<open>get_indices\<close>: the flat output index is decoded against the output strides, largest
  first, and the coordinates are weighted with each operand's strides. The state of the
  loop is \<open>(index_remainder, indices[0], indices[1])\<close>. Integer division by zero is
  undefined on the device.
\<close>

definition get_indices_step ::
  "size_t list \<Rightarrow> size_t list \<Rightarrow> size_t list \<Rightarrow> nat \<Rightarrow> size_t \<times> size_t \<times> size_t
     \<Rightarrow> fault + (size_t \<times> size_t \<times> size_t)" where
  "get_indices_step strides1 strides2 strds i st =
     (case st of (index_remainder, i0, i1) \<Rightarrow>
        (case load strds i of Inl e \<Rightarrow> Inl e | Inr s \<Rightarrow>
         if s = 0 then Inl DivideByZero else
         (case load strides1 i of Inl e \<Rightarrow> Inl e | Inr s1 \<Rightarrow>
          (case load strides2 i of Inl e \<Rightarrow> Inl e | Inr s2 \<Rightarrow>
             (let dim = index_remainder div s
              in Inr (index_remainder - dim * s, i0 + dim * s1, i1 + dim * s2))))))"

definition get_indices ::
  "size_t \<Rightarrow> nat \<Rightarrow> size_t list \<Rightarrow> size_t list \<Rightarrow> size_t list \<Rightarrow> fault + (size_t \<times> size_t)" where
  "get_indices index rnk strides1 strides2 strds =
     (case for_each [0..<rnk] (get_indices_step strides1 strides2 strds) (index, 0, 0) of
        Inl e \<Rightarrow> Inl e
      | Inr (index_remainder, i0, i1) \<Rightarrow> Inr (i0, i1))"

text \<open>
  The four elementwise kernels, one thread each: the first three arguments are
  \<^verbatim>\<open>blockIdx.x\<close>, \<^verbatim>\<open>blockDim.x\<close> and \<^verbatim>\<open>threadIdx.x\<close>, the last is the output buffer (named
  \<open>sum_buf\<close>, \<open>difference_buf\<close>, \<open>product_buf\<close>, \<open>quotient_buf\<close>: the source's names are
  constants of the library), which the thread returns with its cell written. \<^verbatim>\<open>add\<close>, \<^verbatim>\<open>multiply\<close> and \<^verbatim>\<open>divide\<close> keep
  the thread's number in a \<^verbatim>\<open>size_t\<close>; \<^verbatim>\<open>subtract\<close> keeps it in an \<^verbatim>\<open>int\<close>, which is
  sign-extended where it meets \<open>n\<close> and where it is passed to \<^verbatim>\<open>get_indices\<close>, and is a
  signed offset where it subscripts the output.
\<close>

definition add ::
  "c_uint \<Rightarrow> c_uint \<Rightarrow> c_uint \<Rightarrow> size_t \<Rightarrow> nat \<Rightarrow> size_t list \<Rightarrow> size_t list \<Rightarrow> size_t list
     \<Rightarrow> ('a::plus) buffer \<Rightarrow> 'a buffer \<Rightarrow> 'a buffer \<Rightarrow> fault + 'a buffer" where
  "add blockIdx_x blockDim_x threadIdx_x n rnk tensor1_strides tensor2_strides strds tensor1 tensor2 sum_buf =
     (let index = (ucast (blockIdx_x * blockDim_x + threadIdx_x) :: size_t) in
      if index < n then
        (case get_indices index rnk tensor1_strides tensor2_strides strds of Inl e \<Rightarrow> Inl e
         | Inr (i0, i1) \<Rightarrow>
           (case load tensor1 (unat i0) of Inl e \<Rightarrow> Inl e | Inr x \<Rightarrow>
            (case load tensor2 (unat i1) of Inl e \<Rightarrow> Inl e | Inr y \<Rightarrow>
               store sum_buf (unat index) (lift2 (+) x y))))
      else Inr sum_buf)"

definition subtract ::
  "c_uint \<Rightarrow> c_uint \<Rightarrow> c_uint \<Rightarrow> size_t \<Rightarrow> nat \<Rightarrow> size_t list \<Rightarrow> size_t list \<Rightarrow> size_t list
     \<Rightarrow> ('a::minus) buffer \<Rightarrow> 'a buffer \<Rightarrow> 'a buffer \<Rightarrow> fault + 'a buffer" where
  "subtract blockIdx_x blockDim_x threadIdx_x n rnk tensor1_strides tensor2_strides strds tensor1 tensor2 difference_buf =
     (let index = (blockIdx_x * blockDim_x + threadIdx_x :: c_int) in
      if (scast index :: size_t) < n then
        (case get_indices (scast index) rnk tensor1_strides tensor2_strides strds of Inl e \<Rightarrow> Inl e
         | Inr (i0, i1) \<Rightarrow>
           (case load tensor1 (unat i0) of Inl e \<Rightarrow> Inl e | Inr x \<Rightarrow>
            (case load tensor2 (unat i1) of Inl e \<Rightarrow> Inl e | Inr y \<Rightarrow>
               if sint index < 0 then Inl OutOfBounds
               else store difference_buf (nat (sint index)) (lift2 (-) x y))))
      else Inr difference_buf)"

definition multiply ::
  "c_uint \<Rightarrow> c_uint \<Rightarrow> c_uint \<Rightarrow> size_t \<Rightarrow> nat \<Rightarrow> size_t list \<Rightarrow> size_t list \<Rightarrow> size_t list
     \<Rightarrow> ('a::times) buffer \<Rightarrow> 'a buffer \<Rightarrow> 'a buffer \<Rightarrow> fault + 'a buffer" where
  "multiply blockIdx_x blockDim_x threadIdx_x n rnk tensor1_strides tensor2_strides strds tensor1 tensor2 product_buf =
     (let index = (ucast (blockIdx_x * blockDim_x + threadIdx_x) :: size_t) in
      if index < n then
        (case get_indices index rnk tensor1_strides tensor2_strides strds of Inl e \<Rightarrow> Inl e
         | Inr (i0, i1) \<Rightarrow>
           (case load tensor1 (unat i0) of Inl e \<Rightarrow> Inl e | Inr x \<Rightarrow>
            (case load tensor2 (unat i1) of Inl e \<Rightarrow> Inl e | Inr y \<Rightarrow>
               store product_buf (unat index) (lift2 (*) x y))))
      else Inr product_buf)"

definition divide_kernel ::
  "c_uint \<Rightarrow> c_uint \<Rightarrow> c_uint \<Rightarrow> size_t \<Rightarrow> nat \<Rightarrow> size_t list \<Rightarrow> size_t list \<Rightarrow> size_t list
     \<Rightarrow> ('a::divide) buffer \<Rightarrow> 'a buffer \<Rightarrow> 'a buffer \<Rightarrow> fault + 'a buffer" where
  "divide_kernel blockIdx_x blockDim_x threadIdx_x n rnk tensor1_strides tensor2_strides strds tensor1 tensor2 quotient_buf =
     (let index = (ucast (blockIdx_x * blockDim_x + threadIdx_x) :: size_t) in
      if index < n then
        (case get_indices index rnk tensor1_strides tensor2_strides strds of Inl e \<Rightarrow> Inl e
         | Inr (i0, i1) \<Rightarrow>
           (case load tensor1 (unat i0) of Inl e \<Rightarrow> Inl e | Inr x \<Rightarrow>
            (case load tensor2 (unat i1) of Inl e \<Rightarrow> Inl e | Inr y \<Rightarrow>
               store quotient_buf (unat index) (lift2 divide x y))))
      else Inr quotient_buf)"

text \<open>
  The kernel \<^verbatim>\<open>sum\<close>: one serial accumulation from \<^verbatim>\<open>T sum{0}\<close>, written to cell 0.
  It takes no thread number. Its counter is an \<^verbatim>\<open>int\<close> and cannot reach an \<open>n\<close> above
  \<open>2 ^ 31 - 1\<close>.
\<close>

definition sum_kernel :: "size_t \<Rightarrow> ('a::{zero,plus}) buffer \<Rightarrow> 'a buffer \<Rightarrow> fault + 'a buffer" where
  "sum_kernel n input output =
     (if 2147483647 < n then Inl SignedOverflow else
      (case for_each [0..<unat n]
              (\<lambda>i acc. case load input i of Inl e \<Rightarrow> Inl e | Inr x \<Rightarrow> Inr (lift2 (+) acc x))
              (Some 0) of
         Inl e \<Rightarrow> Inl e
       | Inr acc \<Rightarrow> store output 0 acc))"

text \<open>The kernel \<^verbatim>\<open>relu_d\<close>, one thread: \<^verbatim>\<open>output[i] = input[i] > 0 ? 1 : 0\<close>, \<open>i\<close> an \<^verbatim>\<open>int\<close>.\<close>

definition relu_d ::
  "c_uint \<Rightarrow> c_uint \<Rightarrow> c_uint \<Rightarrow> size_t \<Rightarrow> ('a::{zero,one,ord}) buffer \<Rightarrow> 'a buffer \<Rightarrow> fault + 'a buffer" where
  "relu_d blockIdx_x blockDim_x threadIdx_x n input output =
     (let i = (blockIdx_x * blockDim_x + threadIdx_x :: c_int) in
      if (scast i :: size_t) < n then
        (if sint i < 0 then Inl OutOfBounds else
         (case load input (nat (sint i)) of Inl e \<Rightarrow> Inl e | Inr x \<Rightarrow>
            store output (nat (sint i)) (map_option (\<lambda>v. if v > 0 then 1 else 0) x)))
      else Inr output)"

text \<open>
  The kernel \<^verbatim>\<open>matrix_multiply\<close>, one thread. \<^verbatim>\<open>rank - 2\<close> and \<^verbatim>\<open>rank - 1\<close> are computed
  in \<^verbatim>\<open>size_t\<close> and wrap below zero to an index outside every array. The counter of the
  loop is an \<^verbatim>\<open>int\<close>: it cannot reach a \<open>shared_dim\<close> above \<open>2 ^ 31 - 1\<close>. The state of the
  loop is \<open>product\<close>.
\<close>

definition matrix_multiply ::
  "c_uint \<times> c_uint \<times> c_uint \<Rightarrow> c_uint \<times> c_uint \<Rightarrow> c_uint \<times> c_uint
     \<Rightarrow> nat \<Rightarrow> size_t \<Rightarrow> size_t \<Rightarrow> size_t \<Rightarrow> size_t list \<Rightarrow> size_t list
     \<Rightarrow> ('a::{zero,plus,times}) buffer \<Rightarrow> 'a buffer \<Rightarrow> 'a buffer \<Rightarrow> fault + 'a buffer" where
  "matrix_multiply blockIdx blockDim threadIdx rnk height width shared_dim
       tensor1_strides tensor2_strides tensor1 tensor2 matrix_product =
     (case blockIdx of (blockIdx_x, blockIdx_y, blockIdx_z) \<Rightarrow>
      case blockDim of (blockDim_x, blockDim_y) \<Rightarrow>
      case threadIdx of (threadIdx_x, threadIdx_y) \<Rightarrow>
      (let row = (ucast (blockIdx_x * blockDim_x + threadIdx_x) :: size_t);
           column = (ucast (blockIdx_y * blockDim_y + threadIdx_y) :: size_t)
       in
       if row < height \<and> column < width then
         (if rnk < 2 then Inl OutOfBounds else
          (case load tensor1_strides (rnk - 2) of Inl e \<Rightarrow> Inl e | Inr s1_row \<Rightarrow>
           (case load tensor2_strides (rnk - 1) of Inl e \<Rightarrow> Inl e | Inr s2_col \<Rightarrow>
            (let tensor1_start = ucast blockIdx_z * height * shared_dim + row * s1_row;
                 tensor2_start = ucast blockIdx_z * width * shared_dim + column * s2_col
             in
             if 2147483647 < shared_dim then Inl SignedOverflow else
             (case for_each [0..<unat shared_dim]
                     (\<lambda>i product.
                        case load tensor1_strides (rnk - 1) of Inl e \<Rightarrow> Inl e | Inr s1_col \<Rightarrow>
                        (case load tensor2_strides (rnk - 2) of Inl e \<Rightarrow> Inl e | Inr s2_row \<Rightarrow>
                         (case load tensor1 (unat (tensor1_start + of_nat i * s1_col)) of
                            Inl e \<Rightarrow> Inl e
                          | Inr x \<Rightarrow>
                            (case load tensor2 (unat (tensor2_start + of_nat i * s2_row)) of
                               Inl e \<Rightarrow> Inl e
                             | Inr y \<Rightarrow> Inr (lift2 (+) product (lift2 (*) x y))))))
                     (Some 0) of
                Inl e \<Rightarrow> Inl e
              | Inr product \<Rightarrow>
                  store matrix_product
                    (unat (ucast blockIdx_z * height * width + row * width + column)) product)))))
       else Inr matrix_product))"

section \<open>Kernel launches\<close>

text \<open>
  The launch \<^verbatim>\<open>kernel<<<grid, block>>>(...)\<close> with one-dimensional grid and block runs the
  kernel once for each block index below \<open>grid\<close> and each thread index below \<open>block\<close>.
  The threads of these kernels are independent: each reads only the operands, which no
  thread writes, and writes only the output cell of its own index. They are run here one
  after the other, by global thread number \<open>k\<close>, thread \<open>k\<close> being thread \<open>k mod block\<close> of
  block \<open>k div block\<close>. A launch with an empty grid runs no thread.

  The device takes at most \<open>2 ^ 31 - 1\<close> blocks in the \<open>x\<close> dimension of a grid, at most
  65535 in \<open>y\<close> and in \<open>z\<close>, and at most 1024 threads in a block. A launch outside these
  limits is refused: no thread runs. The source never asks for the error of a launch, so
  the host carries on with the output buffer as it was allocated.
\<close>

definition launch_1d ::
  "c_uint \<Rightarrow> c_uint \<Rightarrow> (c_uint \<Rightarrow> c_uint \<Rightarrow> c_uint \<Rightarrow> 'm \<Rightarrow> fault + 'm) \<Rightarrow> 'm \<Rightarrow> fault + 'm" where
  "launch_1d grid block kern m =
     (if 2147483647 < grid \<or> 1024 < block then Inr m
      else for_each [0..<unat grid * unat block]
             (\<lambda>k. kern (of_nat (k div unat block)) block (of_nat (k mod unat block))) m)"

text \<open>
  The launch of \<^verbatim>\<open>mm\<close> has a three-dimensional grid and a two-dimensional block. Its
  threads are independent in the same way and are run in the order of the list of their
  coordinates \<open>((blockIdx.x, blockIdx.y, blockIdx.z), (threadIdx.x, threadIdx.y))\<close>.
\<close>

definition grid_threads ::
  "c_uint \<times> c_uint \<times> c_uint \<Rightarrow> c_uint \<times> c_uint \<Rightarrow> ((nat \<times> nat \<times> nat) \<times> (nat \<times> nat)) list" where
  "grid_threads grid block =
     (case grid of (gx, gy, gz) \<Rightarrow> case block of (dx, dy) \<Rightarrow>
        List.product (List.product [0..<unat gx] (List.product [0..<unat gy] [0..<unat gz]))
                     (List.product [0..<unat dx] [0..<unat dy]))"

definition launch_3d ::
  "c_uint \<times> c_uint \<times> c_uint \<Rightarrow> c_uint \<times> c_uint
     \<Rightarrow> (c_uint \<times> c_uint \<times> c_uint \<Rightarrow> c_uint \<times> c_uint \<Rightarrow> c_uint \<times> c_uint \<Rightarrow> 'm \<Rightarrow> fault + 'm)
     \<Rightarrow> 'm \<Rightarrow> fault + 'm" where
  "launch_3d grid block kern m =
     (case grid of (gx, gy, gz) \<Rightarrow> case block of (dx, dy) \<Rightarrow>
      if 2147483647 < gx \<or> 65535 < gy \<or> 65535 < gz \<or> 1024 < unat dx * unat dy then Inr m
      else for_each (grid_threads grid block)
             (\<lambda>((bx, by, bz), (tx, ty)).
                kern (of_nat bx, of_nat by, of_nat bz) block (of_nat tx, of_nat ty)) m)"

section \<open>Broadcast resolver\<close>

text \<open>
  One round of the loop of \<^verbatim>\<open>prepare_broadcast\<close>. The state is
  \<open>(tensor1_strides, tensor2_strides, shape)\<close>: the two local arrays, zero-initialised,
  of \<open>tensor1.rank\<close> and \<open>tensor2.rank\<close> entries, and the copy of \<open>tensor1.shape\<close>.
  The sizes are compared as \<^verbatim>\<open>int\<close>.
\<close>

definition broadcast_step ::
  "'a Tensor \<Rightarrow> 'a Tensor \<Rightarrow> nat \<Rightarrow> size_t list \<times> size_t list \<times> c_int list
     \<Rightarrow> fault + (size_t list \<times> size_t list \<times> c_int list)" where
  "broadcast_step tensor1 tensor2 i st =
     (case st of (tensor1_strides, tensor2_strides, shp) \<Rightarrow>
        (case load (shape tensor1) i of Inl e \<Rightarrow> Inl e | Inr d1 \<Rightarrow>
         (case load (shape tensor2) i of Inl e \<Rightarrow> Inl e | Inr d2 \<Rightarrow>
            if d1 = d2 then
              (case load (strides tensor1) i of Inl e \<Rightarrow> Inl e | Inr s1 \<Rightarrow>
               (case store tensor1_strides i s1 of Inl e \<Rightarrow> Inl e | Inr t1s \<Rightarrow>
                (case load (strides tensor2) i of Inl e \<Rightarrow> Inl e | Inr s2 \<Rightarrow>
                 (case store tensor2_strides i s2 of Inl e \<Rightarrow> Inl e | Inr t2s \<Rightarrow>
                    Inr (t1s, t2s, shp)))))
            else if sint d1 > sint d2 then
              (case load (strides tensor1) i of Inl e \<Rightarrow> Inl e | Inr s1 \<Rightarrow>
               (case store tensor1_strides i s1 of Inl e \<Rightarrow> Inl e | Inr t1s \<Rightarrow>
                  Inr (t1s, tensor2_strides, shp)))
            else
              (case load (strides tensor2) i of Inl e \<Rightarrow> Inl e | Inr s2 \<Rightarrow>
               (case store tensor2_strides i s2 of Inl e \<Rightarrow> Inl e | Inr t2s \<Rightarrow>
                (case store shp i d2 of Inl e \<Rightarrow> Inl e | Inr shp' \<Rightarrow>
                   Inr (tensor1_strides, t2s, shp')))))))"

text \<open>
  \<^verbatim>\<open>prepare_broadcast\<close> returns the three device arrays \<open>d_tensor1_strides\<close>,
  \<open>d_tensor2_strides\<close>, \<open>d_strides\<close> and the output tensor. Each device array receives the
  first \<open>sum.rank\<close> entries of its host array.
\<close>

definition prepare_broadcast ::
  "'a Tensor \<Rightarrow> 'a Tensor \<Rightarrow> fault + (size_t list \<times> size_t list \<times> size_t list \<times> 'a Tensor)" where
  "prepare_broadcast tensor1 tensor2 =
     (case for_each [0..<rank tensor1] (broadcast_step tensor1 tensor2)
             (replicate (rank tensor1) 0, replicate (rank tensor2) 0, shape tensor1) of
        Inl e \<Rightarrow> Inl e
      | Inr (tensor1_strides, tensor2_strides, shp) \<Rightarrow>
          (let sum_t = (Tensor_ctor shp :: 'a Tensor) in
           if rank sum_t \<le> length tensor1_strides \<and> rank sum_t \<le> length tensor2_strides
           then Inr (take (rank sum_t) tensor1_strides, take (rank sum_t) tensor2_strides,
                     strides sum_t, sum_t)
           else Inl OutOfBounds))"

section \<open>Autograd nodes\<close>

text \<open>
  \<^verbatim>\<open>class Backward\<close> and its two subclasses. The subclasses add no member, so a node is
  the two vectors of the base class and a tag for the \<^verbatim>\<open>operator()\<close> it dispatches to.
  Nodes are only ever made by \<^verbatim>\<open>new\<close> and never freed: the store is the list of all nodes
  made so far, the address of a node is its position, and \<^verbatim>\<open>new\<close> appends.
\<close>

datatype node_kind = Backward_base | AccumulateGradients | MultiplyBackward

record 'a Backward =
  kind :: node_kind
  tensors :: "'a Tensor list"
  backwards :: "nat option list"

type_synonym 'a node_store = "'a Backward list"

text \<open>\<^verbatim>\<open>requires_gradients\<close>: \<^verbatim>\<open>backward = new AccumulateGradients<T>{}\<close>.\<close>

definition requires_gradients :: "'a node_store \<Rightarrow> 'a Tensor \<Rightarrow> 'a Tensor \<times> 'a node_store" where
  "requires_gradients h t =
     (t\<lparr> backward := Some (length h) \<rparr>,
      h @ [\<lparr> kind = AccumulateGradients, tensors = [], backwards = [] \<rparr>])"

text \<open>\<^verbatim>\<open>gradients\<close>: \<^verbatim>\<open>return backward->tensors[0]\<close>.\<close>

definition gradients :: "'a node_store \<Rightarrow> 'a Tensor \<Rightarrow> fault + 'a Tensor" where
  "gradients h t =
     (case backward t of None \<Rightarrow> Inl NullNode
      | Some p \<Rightarrow> (case load h p of Inl e \<Rightarrow> Inl e | Inr node \<Rightarrow> load (tensors node) 0))"

section \<open>Operators\<close>

text \<open>
  The four binary operators. Each resolves the broadcast, launches its kernel with
  \<^verbatim>\<open><<<(n_elements + 255) / 256, 256>>>\<close> (the grid size is narrowed to \<^verbatim>\<open>unsigned int\<close>)
  and returns the output tensor. Only \<^verbatim>\<open>operator*\<close> makes a node.
\<close>

definition operator_plus :: "('a::plus) Tensor \<Rightarrow> 'a Tensor \<Rightarrow> fault + 'a Tensor" where
  "operator_plus tensor1 tensor2 =
     (case prepare_broadcast tensor1 tensor2 of Inl e \<Rightarrow> Inl e
      | Inr (tensor1_strides, tensor2_strides, strds, sum_t) \<Rightarrow>
          (case launch_1d (ucast ((n_elements sum_t + 255) div 256)) 256
                  (\<lambda>b d t. add b d t (n_elements sum_t) (rank sum_t)
                              tensor1_strides tensor2_strides strds (data tensor1) (data tensor2))
                  (data sum_t) of
             Inl e \<Rightarrow> Inl e
           | Inr buf \<Rightarrow> Inr (sum_t\<lparr> data := buf \<rparr>)))"

definition operator_minus :: "('a::minus) Tensor \<Rightarrow> 'a Tensor \<Rightarrow> fault + 'a Tensor" where
  "operator_minus tensor1 tensor2 =
     (case prepare_broadcast tensor1 tensor2 of Inl e \<Rightarrow> Inl e
      | Inr (tensor1_strides, tensor2_strides, strds, difference_t) \<Rightarrow>
          (case launch_1d (ucast ((n_elements difference_t + 255) div 256)) 256
                  (\<lambda>b d t. subtract b d t (n_elements difference_t) (rank difference_t)
                              tensor1_strides tensor2_strides strds (data tensor1) (data tensor2))
                  (data difference_t) of
             Inl e \<Rightarrow> Inl e
           | Inr buf \<Rightarrow> Inr (difference_t\<lparr> data := buf \<rparr>)))"

definition operator_times ::
  "'a node_store \<Rightarrow> ('a::times) Tensor \<Rightarrow> 'a Tensor \<Rightarrow> fault + ('a Tensor \<times> 'a node_store)" where
  "operator_times h tensor1 tensor2 =
     (case prepare_broadcast tensor1 tensor2 of Inl e \<Rightarrow> Inl e
      | Inr (tensor1_strides, tensor2_strides, strds, product_t) \<Rightarrow>
          (case launch_1d (ucast ((n_elements product_t + 255) div 256)) 256
                  (\<lambda>b d t. multiply b d t (n_elements product_t) (rank product_t)
                              tensor1_strides tensor2_strides strds (data tensor1) (data tensor2))
                  (data product_t) of
             Inl e \<Rightarrow> Inl e
           | Inr buf \<Rightarrow>
               Inr (product_t\<lparr> data := buf, backward := Some (length h) \<rparr>,
                    h @ [\<lparr> kind = MultiplyBackward, tensors = [tensor1, tensor2],
                           backwards = [backward tensor1, backward tensor2] \<rparr>])))"

definition operator_divide :: "('a::divide) Tensor \<Rightarrow> 'a Tensor \<Rightarrow> fault + 'a Tensor" where
  "operator_divide tensor1 tensor2 =
     (case prepare_broadcast tensor1 tensor2 of Inl e \<Rightarrow> Inl e
      | Inr (tensor1_strides, tensor2_strides, strds, quotient_t) \<Rightarrow>
          (case launch_1d (ucast ((n_elements quotient_t + 255) div 256)) 256
                  (\<lambda>b d t. divide_kernel b d t (n_elements quotient_t) (rank quotient_t)
                              tensor1_strides tensor2_strides strds (data tensor1) (data tensor2))
                  (data quotient_t) of
             Inl e \<Rightarrow> Inl e
           | Inr buf \<Rightarrow> Inr (quotient_t\<lparr> data := buf \<rparr>)))"

text \<open>
  \<^verbatim>\<open>mm\<close>. \<^verbatim>\<open>back()\<close> of an empty vector and \<^verbatim>\<open>end()[-2]\<close> of a vector with fewer than two
  entries are faults, and so is the host's division by a zero \<open>height * width\<close>. The two
  stride arrays receive the first \<open>rank\<close> entries of the operands' stride vectors. The
  block is \<open>16 \<times> 16\<close>; the three grid sizes are narrowed to \<^verbatim>\<open>unsigned int\<close>.
\<close>

definition mm :: "('a::{zero,plus,times}) Tensor \<Rightarrow> 'a Tensor \<Rightarrow> fault + 'a Tensor" where
  "mm tensor1 tensor2 =
     (if shape tensor1 = [] \<or> shape tensor2 = [] then Inl OutOfBounds else
      (let shp = (shape tensor1)[length (shape tensor1) - 1 := last (shape tensor2)];
           matrix_product = (Tensor_ctor shp :: 'a Tensor)
       in
       if length (shape matrix_product) < 2 then Inl OutOfBounds else
       (let height = (scast (shape matrix_product ! (length (shape matrix_product) - 2)) :: size_t);
            width = (scast (shape matrix_product ! (length (shape matrix_product) - 1)) :: size_t);
            shared_dim = (scast (shape tensor1 ! (length (shape tensor1) - 1)) :: size_t)
        in
        if height * width = 0 then Inl DivideByZero else
        (let batch_size = n_elements matrix_product div (height * width) in
         if length (strides tensor1) < rank matrix_product
            \<or> length (strides tensor2) < rank matrix_product then Inl OutOfBounds else
         (case launch_3d (ucast ((height + 16 - 1) div 16), ucast ((width + 16 - 1) div 16),
                          ucast batch_size) (16, 16)
                 (\<lambda>b d t. matrix_multiply b d t (rank matrix_product) height width shared_dim
                             (take (rank matrix_product) (strides tensor1))
                             (take (rank matrix_product) (strides tensor2))
                             (data tensor1) (data tensor2))
                 (data matrix_product) of
            Inl e \<Rightarrow> Inl e
          | Inr buf \<Rightarrow> Inr (matrix_product\<lparr> data := buf \<rparr>))))))"

text \<open>
  The public \<^verbatim>\<open>sum\<close>: an output of shape 1 in each of the input's dimensions, and the launch
  \<^verbatim>\<open>relu_d<T><<<1, 1>>>(input.n_elements, input.data, sum.data)\<close>.
\<close>

definition sum_tensor :: "('a::{zero,one,ord}) Tensor \<Rightarrow> fault + 'a Tensor" where
  "sum_tensor input =
     (let sum_t = (Tensor_ctor (replicate (rank input) 1) :: 'a Tensor) in
      case launch_1d 1 1 (\<lambda>b d t. relu_d b d t (n_elements input) (data input)) (data sum_t) of
        Inl e \<Rightarrow> Inl e
      | Inr buf \<Rightarrow> Inr (sum_t\<lparr> data := buf \<rparr>))"

section \<open>Backward invocation\<close>



section \<open>Definitions for the statements and proofs\<close>

text \<open>
  The writes of a launch, applied in order. A thread that passes its guard performs one
  write \<open>(p, v)\<close>; a thread that does not performs none.
\<close>

fun apply_writes :: "(nat \<times> 'b) option list \<Rightarrow> 'b list \<Rightarrow> 'b list" where
  "apply_writes [] buf = buf"
| "apply_writes (None # ws) buf = apply_writes ws buf"
| "apply_writes (Some (p, v) # ws) buf = apply_writes ws (buf[p := v])"

text \<open>
  What the loop of \<^verbatim>\<open>prepare_broadcast\<close> leaves in its three arrays, dimension by
  dimension: an operand keeps its stride where its size is not the smaller one, and the
  output takes the larger size.
\<close>

definition broadcast_strides1 :: "'a Tensor \<Rightarrow> 'a Tensor \<Rightarrow> size_t list" where
  "broadcast_strides1 t1 t2 =
     map (\<lambda>j. if sint (shape t2 ! j) \<le> sint (shape t1 ! j) then strides t1 ! j else 0) [0..<rank t1]"

definition broadcast_strides2 :: "'a Tensor \<Rightarrow> 'a Tensor \<Rightarrow> size_t list" where
  "broadcast_strides2 t1 t2 =
     map (\<lambda>j. if sint (shape t1 ! j) \<le> sint (shape t2 ! j) then strides t2 ! j else 0) [0..<rank t1]"

definition broadcast_shape :: "'a Tensor \<Rightarrow> 'a Tensor \<Rightarrow> c_int list" where
  "broadcast_shape t1 t2 =
     map (\<lambda>j. if sint (shape t1 ! j) < sint (shape t2 ! j) then shape t2 ! j else shape t1 ! j) [0..<rank t1]"

text \<open>
  The body that \<^verbatim>\<open>add\<close>, \<^verbatim>\<open>subtract\<close>, \<^verbatim>\<open>multiply\<close> and \<^verbatim>\<open>divide\<close> share, from the
  guard on, for a thread whose index has been computed and widened to \<^verbatim>\<open>size_t\<close>.
\<close>

definition binary_thread ::
  "('a \<Rightarrow> 'a \<Rightarrow> 'a) \<Rightarrow> size_t \<Rightarrow> size_t \<Rightarrow> nat \<Rightarrow> size_t list \<Rightarrow> size_t list \<Rightarrow> size_t list
     \<Rightarrow> 'a buffer \<Rightarrow> 'a buffer \<Rightarrow> 'a buffer \<Rightarrow> fault + 'a buffer" where
  "binary_thread f index n rnk tensor1_strides tensor2_strides strds tensor1 tensor2 out =
     (if index < n then
        (case get_indices index rnk tensor1_strides tensor2_strides strds of Inl e \<Rightarrow> Inl e
         | Inr (i0, i1) \<Rightarrow>
           (case load tensor1 (unat i0) of Inl e \<Rightarrow> Inl e | Inr x \<Rightarrow>
            (case load tensor2 (unat i1) of Inl e \<Rightarrow> Inl e | Inr y \<Rightarrow>
               store out (unat index) (lift2 f x y))))
      else Inr out)"

text \<open>
  Plain elementwise arithmetic, as the specification words it: position by position
  over the two buffers. An indeterminate cell gives an indeterminate result.
\<close>

definition elementwise :: "('a \<Rightarrow> 'a \<Rightarrow> 'a) \<Rightarrow> 'a buffer \<Rightarrow> 'a buffer \<Rightarrow> 'a buffer" where
  "elementwise f xs ys = map2 (lift2 f) xs ys"

text \<open>
  A tensor as the shape constructor and the factories make it: dense row-major strides
  for its shape, the element count of its shape, and a buffer of that many cells.
\<close>

definition dense_row_major :: "'a Tensor \<Rightarrow> bool" where
  "dense_row_major t \<longleftrightarrow>
     rank t = length (shape t)
     \<and> strides t = strides (Tensor_ctor (shape t) :: 'a Tensor)
     \<and> n_elements t = count_elements (shape t)
     \<and> length (data t) = unat (n_elements t)"

text \<open>Small tensors for the concrete cases: what \<^verbatim>\<open>from_vector\<close> makes of the values and the shape.\<close>

definition vector_1_2 :: "int Tensor" where
  "vector_1_2 = \<lparr> data = [Some 1, Some 2], shape = [2], rank = 1, strides = [1],
                   n_elements = 2, backward = None \<rparr>"

definition vector_3_4 :: "int Tensor" where
  "vector_3_4 = \<lparr> data = [Some 3, Some 4], shape = [2], rank = 1, strides = [1],
                   n_elements = 2, backward = None \<rparr>"

definition matrix_1_2_3_4 :: "int Tensor" where
  "matrix_1_2_3_4 = \<lparr> data = [Some 1, Some 2, Some 3, Some 4], shape = [2, 2], rank = 2,
                       strides = [2, 1], n_elements = 4, backward = None \<rparr>"

definition matrix_5_6_7_8 :: "int Tensor" where
  "matrix_5_6_7_8 = \<lparr> data = [Some 5, Some 6, Some 7, Some 8], shape = [2, 2], rank = 2,
                       strides = [2, 1], n_elements = 4, backward = None \<rparr>"

definition matrix_2x3 :: "int Tensor" where
  "matrix_2x3 = \<lparr> data = [Some 1, Some 2, Some 3, Some 4, Some 5, Some 6], shape = [2, 3],
                   rank = 2, strides = [3, 1], n_elements = 6, backward = None \<rparr>"

definition row_1x3 :: "int Tensor" where
  "row_1x3 = \<lparr> data = [Some 10, Some 20, Some 30], shape = [1, 3], rank = 2,
                strides = [3, 1], n_elements = 3, backward = None \<rparr>"

text \<open>
  A leaf as \<^verbatim>\<open>requires_gradients\<close> leaves it: an accumulating node that has received no
  gradient yet.
\<close>

definition fresh_leaf :: "'a node_store \<Rightarrow> nat \<Rightarrow> bool" where
  "fresh_leaf h p \<longleftrightarrow> p < length h \<and> kind (h ! p) = AccumulateGradients \<and> tensors (h ! p) = []"

text \<open>
  The serial dot product of the kernel \<^verbatim>\<open>matrix_multiply\<close>: \<open>n\<close> products accumulated from 0
  in the order of the loop, the cells of the two buffers read from a start offset in
  steps of a stride, all in \<^verbatim>\<open>size_t\<close>.
\<close>

definition strided_dot ::
  "('a::{zero,plus,times}) buffer \<Rightarrow> 'a buffer \<Rightarrow> size_t \<Rightarrow> size_t \<Rightarrow> size_t \<Rightarrow> size_t \<Rightarrow> nat
     \<Rightarrow> fault + 'a option" where
  "strided_dot xs ys start1 step1 start2 step2 n =
     for_each [0..<n]
       (\<lambda>i acc. case load xs (unat (start1 + of_nat i * step1)) of Inl e \<Rightarrow> Inl e | Inr x \<Rightarrow>
                 (case load ys (unat (start2 + of_nat i * step2)) of Inl e \<Rightarrow> Inl e | Inr y \<Rightarrow>
                    Inr (lift2 (+) acc (lift2 (*) x y))))
       (Some 0)"

text \<open>
  What a thread of \<^verbatim>\<open>matrix_multiply\<close> that has passed its guard writes, as a function of
  its batch, row and column.
\<close>

definition mm_write ::
  "nat \<Rightarrow> size_t \<Rightarrow> size_t \<Rightarrow> size_t \<Rightarrow> size_t list \<Rightarrow> size_t list
     \<Rightarrow> ('a::{zero,plus,times}) buffer \<Rightarrow> 'a buffer \<Rightarrow> size_t \<Rightarrow> size_t \<Rightarrow> size_t
     \<Rightarrow> fault + (nat \<times> 'a option) option" where
  "mm_write rnk height width shared_dim S1 S2 t1 t2 z row column =
     (if rnk < 2 \<or> length S1 < rnk \<or> length S2 < rnk then Inl OutOfBounds
      else if 2147483647 < shared_dim then Inl SignedOverflow
      else case strided_dot t1 t2
                  (z * height * shared_dim + row * (S1 ! (rnk - 2))) (S1 ! (rnk - 1))
                  (z * width * shared_dim + column * (S2 ! (rnk - 1))) (S2 ! (rnk - 2))
                  (unat shared_dim) of
             Inl e \<Rightarrow> Inl e
           | Inr v \<Rightarrow> Inr (Some (unat (z * height * width + row * width + column), v)))"

text \<open>The quantities \<^verbatim>\<open>mm\<close> computes on the host, by the names it gives them.\<close>

definition mm_shape :: "'a Tensor \<Rightarrow> 'a Tensor \<Rightarrow> c_int list" where
  "mm_shape A B = (shape A)[length (shape A) - 1 := last (shape B)]"

definition mm_height :: "'a Tensor \<Rightarrow> size_t" where
  "mm_height A = scast (shape A ! (length (shape A) - 2))"

definition mm_width :: "'a Tensor \<Rightarrow> size_t" where
  "mm_width B = scast (last (shape B))"

definition mm_shared :: "'a Tensor \<Rightarrow> size_t" where
  "mm_shared A = scast (last (shape A))"

definition mm_batch :: "'a Tensor \<Rightarrow> 'a Tensor \<Rightarrow> size_t" where
  "mm_batch A B = count_elements (mm_shape A B) div (mm_height A * mm_width B)"






definition matrix_1_2_3_4_transposed :: "int Tensor" where
  "matrix_1_2_3_4_transposed = \<lparr> data = [Some 1, Some 2, Some 3, Some 4], shape = [2, 2],
                          rank = 2, strides = [1, 2], n_elements = 4, backward = None \<rparr>"



section \<open>Strides of the shape constructor\<close>

lemma length_stride_loop: "length (stride_loop shp k stride strds) = length strds"
  by (induction k arbitrary: stride strds) simp_all

lemma stride_loop_above:
  "k \<le> j \<Longrightarrow> stride_loop shp k stride strds ! j = strds ! j"
  by (induction k arbitrary: stride strds) simp_all

lemma stride_loop_top:
  "k < length strds \<Longrightarrow> stride_loop shp (Suc k) stride strds ! k = stride"
  by (simp add: stride_loop_above)

lemma stride_loop_step:
  "Suc i < k \<Longrightarrow> k \<le> length strds \<Longrightarrow>
   stride_loop shp k stride strds ! i
     = stride_loop shp k stride strds ! Suc i * scast (shp ! Suc i)"
proof (induction k arbitrary: stride strds)
  case 0
  then show ?case by simp
next
  case (Suc k)
  show ?case
  proof (cases "Suc i < k")
    case True
    with Suc show ?thesis by simp
  next
    case False
    with Suc.prems have k: "k = Suc i" by simp
    have "stride_loop shp (Suc k) stride strds ! i = stride * scast (shp ! k)"
      using Suc.prems by (simp add: stride_loop_above k)
    moreover have "stride_loop shp (Suc k) stride strds ! Suc i = stride"
      using Suc.prems by (simp add: stride_loop_above k)
    ultimately show ?thesis by (simp add: k)
  qed
qed

text \<open>
  C8. For a non-empty shape the strides of the shape constructor end in 1, and each
  stride is the next stride times the next dimension size. The product is the one the
  source computes: in \<^verbatim>\<open>size_t\<close>, the \<^verbatim>\<open>int\<close> size converted. The sizes need not even be
  positive for this.
\<close>

theorem ctor_strides_row_major:
  fixes s :: "c_int list"
  assumes "s \<noteq> []"
  shows "strides (Tensor_ctor s :: 'a Tensor) ! (rank (Tensor_ctor s :: 'a Tensor) - 1) = 1
       \<and> (\<forall>i. i < rank (Tensor_ctor s :: 'a Tensor) - 1 \<longrightarrow>
            strides (Tensor_ctor s :: 'a Tensor) ! i
              = strides (Tensor_ctor s :: 'a Tensor) ! (i + 1) * scast (s ! (i + 1)))"
proof -
  from assms obtain k where k: "length s = Suc k" by (cases s) auto
  have "stride_loop s (Suc k) 1 (replicate (Suc k) 0) ! k = 1"
    by (rule stride_loop_top) simp
  moreover have "\<forall>i. i < k \<longrightarrow>
      stride_loop s (Suc k) 1 (replicate (Suc k) 0) ! i
        = stride_loop s (Suc k) 1 (replicate (Suc k) 0) ! Suc i * scast (s ! Suc i)"
    using stride_loop_step [of _ "Suc k" "replicate (Suc k) 0" s 1] by simp
  ultimately show ?thesis by (simp add: Tensor_ctor_def k)
qed

theorem ctor_strides_row_major_witness:
  "[2, 3, 4] \<noteq> ([] :: c_int list)
   \<and> strides (Tensor_ctor [2, 3, 4] :: int Tensor) = [12, 4, 1]
   \<and> strides (Tensor_ctor [2, 3, 4] :: int Tensor) ! 2 = 1
   \<and> strides (Tensor_ctor [2, 3, 4] :: int Tensor) ! 1
       = strides (Tensor_ctor [2, 3, 4] :: int Tensor) ! 2 * scast ([2, 3, 4 :: c_int] ! 2)
   \<and> strides (Tensor_ctor [2, 3, 4] :: int Tensor) ! 0
       = strides (Tensor_ctor [2, 3, 4] :: int Tensor) ! 1 * scast ([2, 3, 4 :: c_int] ! 1)"
proof -
  have ne: "[2, 3, 4] \<noteq> ([] :: c_int list)" by simp
  have v: "strides (Tensor_ctor [2, 3, 4] :: int Tensor) = [12, 4, 1]"
    by (simp add: Tensor_ctor_def numeral_3_eq_3)
  have r: "rank (Tensor_ctor [2, 3, 4] :: int Tensor) = 3"
    by (simp add: Tensor_ctor_def)
  from ctor_strides_row_major [OF ne, where 'a = int]
  have a: "strides (Tensor_ctor [2, 3, 4] :: int Tensor) ! 2 = 1"
    and b: "\<And>i. i < 2 \<Longrightarrow> strides (Tensor_ctor [2, 3, 4] :: int Tensor) ! i
              = strides (Tensor_ctor [2, 3, 4] :: int Tensor) ! (i + 1) * scast ([2, 3, 4 :: c_int] ! (i + 1))"
    by (simp_all add: r)
  from b [of 1] b [of 0] a v ne show ?thesis by simp
qed

section \<open>Transposed views\<close>

text \<open>
  C9. Transposing the same two valid dimensions twice gives back the shape and the
  strides of the tensor.
\<close>

theorem transpose_transpose:
  assumes "unat i < rank t" and "unat j < rank t"
    and "length (shape t) = rank t" and "length (strides t) = rank t"
  shows "\<exists>u v. transpose i j t = Inr u \<and> transpose i j u = Inr v
           \<and> shape v = shape t \<and> strides v = strides t"
proof -
  define u where "u = t\<lparr> shape := (shape t)[unat i := shape t ! unat j, unat j := shape t ! unat i],
                  strides := (strides t)[unat i := strides t ! unat j, unat j := strides t ! unat i] \<rparr>"
  define v where "v = u\<lparr> shape := (shape u)[unat i := shape u ! unat j, unat j := shape u ! unat i],
                  strides := (strides u)[unat i := strides u ! unat j, unat j := strides u ! unat i] \<rparr>"
  have tu: "transpose i j t = Inr u"
    using assms by (simp add: transpose_def u_def)
  have uv: "transpose i j u = Inr v"
    using assms by (simp add: transpose_def v_def) (simp add: u_def)
  have swap: "\<And>xs :: 'b list. unat i < length xs \<Longrightarrow> unat j < length xs \<Longrightarrow>
      (let ys = xs[unat i := xs ! unat j, unat j := xs ! unat i]
       in ys[unat i := ys ! unat j, unat j := ys ! unat i]) = xs"
    by (auto simp: Let_def list_eq_iff_nth_eq nth_list_update)
  have "shape v = shape t"
    using swap [of "shape t"] assms by (simp add: v_def u_def Let_def)
  moreover have "strides v = strides t"
    using swap [of "strides t"] assms by (simp add: v_def u_def Let_def)
  ultimately show ?thesis using tu uv by blast
qed

theorem transpose_transpose_witness:
  "unat (0 :: size_t) < rank (Tensor_ctor [2, 3] :: int Tensor)
   \<and> unat (1 :: size_t) < rank (Tensor_ctor [2, 3] :: int Tensor)
   \<and> (\<exists>u v. transpose 0 1 (Tensor_ctor [2, 3] :: int Tensor) = Inr u \<and> transpose 0 1 u = Inr v
         \<and> shape u = [3, 2] \<and> strides u = [1, 3]
         \<and> shape v = [2, 3] \<and> strides v = [3, 1])"
proof -
  let ?t = "Tensor_ctor [2, 3] :: int Tensor"
  have r: "rank ?t = 2" "shape ?t = [2, 3]" "strides ?t = [3, 1]"
    by (simp_all add: Tensor_ctor_def numeral_2_eq_2)
  have h: "unat (0 :: size_t) < rank ?t" "unat (1 :: size_t) < rank ?t"
    "length (shape ?t) = rank ?t" "length (strides ?t) = rank ?t"
    by (simp_all add: r)
  from transpose_transpose [OF h] obtain u v where
    uv: "transpose 0 1 ?t = Inr u" "transpose 0 1 u = Inr v" "shape v = shape ?t" "strides v = strides ?t"
    by blast
  from uv(1) have "shape u = [3, 2]" "strides u = [1, 3]"
    by (auto simp: transpose_def r)
  with uv h show ?thesis by (simp add: r)
qed

section \<open>Loops and launches in general\<close>

lemma for_each_append:
  "for_each (xs @ ys) body s =
     (case for_each xs body s of Inl e \<Rightarrow> Inl e | Inr s' \<Rightarrow> for_each ys body s')"
  by (induction xs arbitrary: s) (simp_all split: sum.splits)

lemma for_each_upt_invariant:
  assumes "I 0 s0"
    and "\<And>i s. i < n \<Longrightarrow> I i s \<Longrightarrow> \<exists>s'. body i s = Inr s' \<and> I (Suc i) s'"
  shows "\<exists>s'. for_each [0..<n] body s0 = Inr s' \<and> I n s'"
  using assms(2)
proof (induction n)
  case 0
  with assms(1) show ?case by simp
next
  case (Suc n)
  have "\<exists>s'. for_each [0..<n] body s0 = Inr s' \<and> I n s'"
    by (rule Suc.IH) (simp add: Suc.prems)
  then obtain s1 where s1: "for_each [0..<n] body s0 = Inr s1" "I n s1"
    by blast
  from Suc.prems [of n s1] s1 obtain s2 where "body n s1 = Inr s2" "I (Suc n) s2"
    by blast
  with s1 show ?case by (simp add: for_each_append)
qed

lemma length_apply_writes: "length (apply_writes ws buf) = length buf"
  by (induction ws buf rule: apply_writes.induct) simp_all

lemma apply_writes_snoc:
  "apply_writes (ws @ [w]) buf =
     (case w of None \<Rightarrow> apply_writes ws buf | Some (p, v) \<Rightarrow> (apply_writes ws buf)[p := v])"
  by (induction ws buf rule: apply_writes.induct) (simp_all split: option.splits)

lemma apply_writes_untouched:
  "\<forall>v. Some (p, v) \<notin> set ws \<Longrightarrow> apply_writes ws buf ! p = buf ! p"
proof (induction ws rule: rev_induct)
  case Nil
  show ?case by simp
next
  case (snoc w ws)
  from snoc.prems have ih: "apply_writes ws buf ! p = buf ! p"
    by (intro snoc.IH) simp
  show ?case
  proof (cases w)
    case None
    with ih show ?thesis by (simp add: apply_writes_snoc)
  next
    case (Some qv)
    obtain q v where qv: "qv = (q, v)" by (cases qv)
    from snoc.prems Some qv have "q \<noteq> p" by auto
    with ih Some qv show ?thesis by (simp add: apply_writes_snoc)
  qed
qed

lemma apply_writes_written:
  assumes "Some (p, v) \<in> set ws"
    and "\<And>v'. Some (p, v') \<in> set ws \<Longrightarrow> v' = v"
    and "p < length buf"
  shows "apply_writes ws buf ! p = v"
  using assms(1,2)
proof (induction ws rule: rev_induct)
  case Nil
  then show ?case by simp
next
  case (snoc w ws)
  have len: "p < length (apply_writes ws buf)"
    using assms(3) by (simp add: length_apply_writes)
  show ?case
  proof (cases "\<exists>v'. w = Some (p, v')")
    case True
    then obtain v' where w: "w = Some (p, v')" by blast
    with snoc.prems(2) [of v'] have "v' = v" by simp
    with w len show ?thesis by (simp add: apply_writes_snoc)
  next
    case False
    with snoc.prems(1) have mem: "Some (p, v) \<in> set ws" by auto
    have ih: "apply_writes ws buf ! p = v"
    proof (rule snoc.IH [OF mem])
      fix v' assume "Some (p, v') \<in> set ws"
      then show "v' = v" using snoc.prems(2) [of v'] by simp
    qed
    show ?thesis
    proof (cases w)
      case None
      with ih show ?thesis by (simp add: apply_writes_snoc)
    next
      case (Some qv)
      obtain q u where qv: "qv = (q, u)" by (cases qv)
      from False Some qv have "q \<noteq> p" by simp
      with ih Some qv show ?thesis by (simp add: apply_writes_snoc)
    qed
  qed
qed

lemma for_each_writes:
  assumes "\<And>k buf. k \<in> set ks \<Longrightarrow> length buf = n \<Longrightarrow>
             body k buf = (case act k of None \<Rightarrow> Inr buf | Some (p, v) \<Rightarrow> store buf p v)"
    and "\<And>k p v. k \<in> set ks \<Longrightarrow> act k = Some (p, v) \<Longrightarrow> p < n"
    and "length buf0 = n"
  shows "for_each ks body buf0 = Inr (apply_writes (map act ks) buf0)"
  using assms
proof (induction ks arbitrary: buf0)
  case Nil
  then show ?case by simp
next
  case (Cons k ks)
  have IH: "\<And>b. length b = n \<Longrightarrow> for_each ks body b = Inr (apply_writes (map act ks) b)"
  proof -
    fix b :: "'b list" assume b: "length b = n"
    show "for_each ks body b = Inr (apply_writes (map act ks) b)"
    proof (rule Cons.IH)
      fix j and buf :: "'b list" assume "j \<in> set ks" "length buf = n"
      then show "body j buf = (case act j of None \<Rightarrow> Inr buf | Some (p, v) \<Rightarrow> store buf p v)"
        using Cons.prems(1) [of j buf] by simp
    next
      fix j p v assume "j \<in> set ks" "act j = Some (p, v)"
      then show "p < n" using Cons.prems(2) [of j p v] by simp
    qed (rule b)
  qed
  have bk: "body k buf0 = (case act k of None \<Rightarrow> Inr buf0 | Some (p, v) \<Rightarrow> store buf0 p v)"
    using Cons.prems(1) [of k buf0] Cons.prems(3) by simp
  show ?case
  proof (cases "act k")
    case None
    with bk IH [of buf0] Cons.prems(3) show ?thesis by simp
  next
    case (Some pv)
    obtain p v where pv: "pv = (p, v)" by (cases pv)
    have p: "p < n" using Cons.prems(2) [of k p v] Some pv by simp
    with bk Cons.prems(3) Some pv
    have "body k buf0 = Inr (buf0[p := v])" by (simp add: store_def)
    moreover have "for_each ks body (buf0[p := v]) = Inr (apply_writes (map act ks) (buf0[p := v]))"
      using Cons.prems(3) by (intro IH) simp
    ultimately show ?thesis using Some pv by simp
  qed
qed

section \<open>Thread numbers\<close>

lemma thread_number:
  "(of_nat (k div unat block) :: c_uint) * block + of_nat (k mod unat block) = of_nat k"
proof -
  have "(of_nat (k div unat block) :: c_uint) * of_nat (unat block) + of_nat (k mod unat block)
          = of_nat (k div unat block * unat block + k mod unat block)"
    by (simp only: of_nat_add of_nat_mult)
  then show ?thesis by simp
qed

lemma ucast_thread_number:
  "k < 2 ^ 32 \<Longrightarrow> (ucast (of_nat k :: c_uint) :: size_t) = of_nat k"
  by (simp add: ucast_eq unsigned_of_nat take_bit_nat_eq_self)

lemma unat_size_t_of_nat: "k < 2 ^ 64 \<Longrightarrow> unat (of_nat k :: size_t) = k"
  by (simp add: unat_of_nat)

lemma sint_thread_number:
  "k < 2 ^ 31 \<Longrightarrow> sint (of_nat k :: c_int) = int k"
  by (simp add: signed_of_nat signed_take_bit_int_eq_self)

lemma scast_thread_number:
  "k < 2 ^ 31 \<Longrightarrow> (scast (of_nat k :: c_int) :: size_t) = of_nat k"
  by (simp add: scast_eq sint_thread_number)

lemma sint_thread_number_neg:
  assumes "2 ^ 31 \<le> k" and "k < 2 ^ 32"
  shows "sint (of_nat k :: c_int) = int k - 2 ^ 32"
proof -
  have lo: "(0::int) \<le> int k - 2 ^ 31" using assms(1) by simp
  have hi: "int k - 2 ^ 31 < 2 ^ 32" using assms(2) by simp
  have e: "int k + 2 ^ 31 = int k - 2 ^ 31 + 2 ^ 32" by simp
  have "(int k + 2 ^ 31) mod 2 ^ 32 = (int k - 2 ^ 31 + 2 ^ 32) mod 2 ^ 32"
    by (simp only: e)
  also have "\<dots> = (int k - 2 ^ 31) mod 2 ^ 32"
    by (simp only: mod_add_self2)
  also have "\<dots> = int k - 2 ^ 31"
    using lo hi by (simp only: mod_pos_pos_trivial)
  finally have "(int k + 2 ^ 31) mod 2 ^ 32 = int k - 2 ^ 31" .
  then show ?thesis
    by (simp add: signed_of_nat signed_take_bit_eq_take_bit_shift take_bit_eq_mod)
qed

lemma unat_scast_size_t:
  "unat (scast w :: size_t) = nat (sint w mod 2 ^ 64)" for w :: c_int
proof -
  have "unat (scast w :: size_t) = nat (sint w mod 2 ^ LENGTH(64))"
    by (simp only: scast_eq unsigned_of_int take_bit_eq_mod of_nat_id)
  moreover have "(2::int) ^ LENGTH(64) = 2 ^ 64" by simp
  ultimately show ?thesis by (simp only:)
qed

lemma scast_thread_number_neg:
  assumes "2 ^ 31 \<le> k" and "k < 2 ^ 32"
  shows "unat (scast (of_nat k :: c_int) :: size_t) = 2 ^ 64 - 2 ^ 32 + k"
proof -
  have s: "sint (of_nat k :: c_int) = int k - 2 ^ 32"
    using assms by (rule sint_thread_number_neg)
  have "(int k - 2 ^ 32) mod 2 ^ 64 = (int k - 2 ^ 32 + 2 ^ 64) mod 2 ^ 64"
    by (simp only: mod_add_self2)
  also have "\<dots> = int k - 2 ^ 32 + 2 ^ 64"
    using assms by (intro mod_pos_pos_trivial) simp_all
  finally have "(int k - 2 ^ 32) mod 2 ^ 64 = int k - 2 ^ 32 + 2 ^ 64" .
  then have "unat (scast (of_nat k :: c_int) :: size_t) = nat (int k - 2 ^ 32 + 2 ^ 64)"
    by (simp only: unat_scast_size_t s)
  then show ?thesis using assms by simp
qed

section \<open>Dense strides and the index decode\<close>

lemma count_elements_prod_aux:
  "foldl (\<lambda>acc d. acc * scast d) a shp = a * prod_list (map scast shp)" for a :: size_t
  by (induction shp arbitrary: a) (simp_all add: mult.assoc)

lemma count_elements_prod: "count_elements shp = prod_list (map scast shp)"
  by (simp add: count_elements_def count_elements_prod_aux)

lemma stride_loop_nth:
  "i < k \<Longrightarrow> k \<le> length shp \<Longrightarrow> k \<le> length strds \<Longrightarrow>
   stride_loop shp k stride strds ! i
     = stride * prod_list (map scast (take (k - Suc i) (drop (Suc i) shp)))"
proof (induction k arbitrary: stride strds)
  case 0
  then show ?case by simp
next
  case (Suc k)
  show ?case
  proof (cases "i < k")
    case True
    have t: "take (k - i) (drop (Suc i) shp)
               = take (k - Suc i) (drop (Suc i) shp) @ [shp ! k]"
    proof -
      have "k - i = Suc (k - Suc i)" using True by simp
      moreover have "k - Suc i < length (drop (Suc i) shp)" using True Suc.prems by simp
      moreover have "drop (Suc i) shp ! (k - Suc i) = shp ! k" using True Suc.prems by simp
      ultimately show ?thesis by (simp add: take_Suc_conv_app_nth)
    qed
    have "stride_loop shp (Suc k) stride strds ! i
            = stride * scast (shp ! k) * prod_list (map scast (take (k - Suc i) (drop (Suc i) shp)))"
      using True Suc.prems by (simp add: Suc.IH)
    then show ?thesis by (simp add: t mult.assoc mult.commute)
  next
    case False
    with Suc.prems have "i = k" by simp
    then show ?thesis using Suc.prems by (simp add: stride_loop_above)
  qed
qed

lemma ctor_strides_nth:
  "i < length shp \<Longrightarrow>
   strides (Tensor_ctor shp :: 'a Tensor) ! i = prod_list (map scast (drop (Suc i) shp))"
  by (simp add: Tensor_ctor_def stride_loop_nth)

lemma ctor_strides_length: "length (strides (Tensor_ctor shp :: 'a Tensor)) = length shp"
  by (simp add: Tensor_ctor_def length_stride_loop)

lemma ctor_strides_nonzero:
  assumes "count_elements shp \<noteq> 0" and "i < length shp"
  shows "strides (Tensor_ctor shp :: 'a Tensor) ! i \<noteq> 0"
proof
  assume z: "strides (Tensor_ctor shp :: 'a Tensor) ! i = 0"
  have "count_elements shp
          = prod_list (map scast (take (Suc i) shp)) * prod_list (map scast (drop (Suc i) shp))"
    by (simp add: count_elements_prod flip: prod_list.append map_append)
  with z assms(2) have "count_elements shp = 0"
    by (simp add: ctor_strides_nth)
  with assms(1) show False by simp
qed

lemma ctor_strides_last:
  "shp \<noteq> [] \<Longrightarrow> strides (Tensor_ctor shp :: 'a Tensor) ! (length shp - 1) = 1"
  by (simp add: ctor_strides_nth)

lemma get_indices_same_strides:
  assumes "length S = r" and "\<forall>i<r. S ! i \<noteq> 0" and "0 < r \<Longrightarrow> S ! (r - 1) = 1"
    and "r = 0 \<Longrightarrow> index = 0"
  shows "get_indices index r S S S = Inr (index, index)"
proof -
  define I where "I = (\<lambda>i (st :: size_t \<times> size_t \<times> size_t).
     case st of (rem, i0, i1) \<Rightarrow> i0 + rem = index \<and> i1 + rem = index
       \<and> (0 < i \<and> S ! (i - 1) = 1 \<longrightarrow> rem = 0) \<and> (i = 0 \<longrightarrow> i0 = 0 \<and> i1 = 0))"
  have "\<exists>s'. for_each [0..<r] (get_indices_step S S S) (index, 0, 0) = Inr s' \<and> I r s'"
  proof (rule for_each_upt_invariant)
    show "I 0 (index, 0, 0)" by (simp add: I_def)
  next
    fix i st assume i: "i < r" and inv: "I i st"
    obtain rem i0 i1 where st: "st = (rem, i0, i1)" by (cases st)
    from i assms have nz: "S ! i \<noteq> 0" and len: "i < length S" by simp_all
    let ?dim = "rem div (S ! i)"
    have step: "get_indices_step S S S i st
                  = Inr (rem - ?dim * (S ! i), i0 + ?dim * (S ! i), i1 + ?dim * (S ! i))"
      using nz len by (simp add: get_indices_step_def st load_def Let_def)
    have "I (Suc i) (rem - ?dim * (S ! i), i0 + ?dim * (S ! i), i1 + ?dim * (S ! i))"
      using inv by (auto simp: I_def st)
    with step show "\<exists>s'. get_indices_step S S S i st = Inr s' \<and> I (Suc i) s'" by blast
  qed
  then obtain rem i0 i1 where
    r: "for_each [0..<r] (get_indices_step S S S) (index, 0, 0) = Inr (rem, i0, i1)"
    and inv: "I r (rem, i0, i1)"
    by (metis prod_cases3)
  have "i0 = index \<and> i1 = index"
  proof (cases "r = 0")
    case True
    with inv assms(4) show ?thesis by (simp add: I_def)
  next
    case False
    with assms(3) have "S ! (r - 1) = 1" by simp
    with inv False show ?thesis by (auto simp: I_def)
  qed
  with r show ?thesis by (simp add: get_indices_def)
qed

section \<open>The broadcast loop\<close>

lemma sint_eq_imp_eq: "sint x = sint y \<Longrightarrow> x = y" for x y :: c_int
  by (simp add: signed_word_eqI)

lemma broadcast_loop:
  fixes t1 t2 :: "'a Tensor"
  assumes "rank t2 = rank t1"
    and "length (shape t1) = rank t1" and "length (strides t1) = rank t1"
    and "length (shape t2) = rank t1" and "length (strides t2) = rank t1"
  shows "for_each [0..<rank t1] (broadcast_step t1 t2)
           (replicate (rank t1) 0, replicate (rank t2) 0, shape t1)
         = Inr (broadcast_strides1 t1 t2, broadcast_strides2 t1 t2, broadcast_shape t1 t2)"
proof -
  let ?r = "rank t1"
  let ?E1 = "\<lambda>j. if sint (shape t2 ! j) \<le> sint (shape t1 ! j) then strides t1 ! j else 0"
  let ?E2 = "\<lambda>j. if sint (shape t1 ! j) \<le> sint (shape t2 ! j) then strides t2 ! j else 0"
  let ?E3 = "\<lambda>j. if sint (shape t1 ! j) < sint (shape t2 ! j) then shape t2 ! j else shape t1 ! j"
  define I where "I = (\<lambda>i (st :: size_t list \<times> size_t list \<times> c_int list).
     case st of (s1, s2, shp) \<Rightarrow>
       length s1 = ?r \<and> length s2 = ?r \<and> length shp = ?r
       \<and> (\<forall>j<?r. s1 ! j = (if j < i then ?E1 j else 0)
                \<and> s2 ! j = (if j < i then ?E2 j else 0)
                \<and> shp ! j = (if j < i then ?E3 j else shape t1 ! j)))"
  have "\<exists>s'. for_each [0..<?r] (broadcast_step t1 t2)
           (replicate ?r 0, replicate (rank t2) 0, shape t1) = Inr s' \<and> I ?r s'"
  proof (rule for_each_upt_invariant)
    show "I 0 (replicate ?r 0, replicate (rank t2) 0, shape t1)"
      using assms by (simp add: I_def)
  next
    fix i st assume i: "i < ?r" and inv: "I i st"
    obtain s1 s2 shp where st: "st = (s1, s2, shp)" by (cases st)
    from inv have len: "length s1 = ?r" "length s2 = ?r" "length shp = ?r"
      and val: "\<And>j. j < ?r \<Longrightarrow> s1 ! j = (if j < i then ?E1 j else 0)
                \<and> s2 ! j = (if j < i then ?E2 j else 0)
                \<and> shp ! j = (if j < i then ?E3 j else shape t1 ! j)"
      by (simp_all add: I_def st)
    consider (eq) "shape t1 ! i = shape t2 ! i"
      | (gt) "shape t1 ! i \<noteq> shape t2 ! i" "sint (shape t2 ! i) < sint (shape t1 ! i)"
      | (lt) "shape t1 ! i \<noteq> shape t2 ! i" "sint (shape t1 ! i) < sint (shape t2 ! i)"
      using sint_eq_imp_eq [of "shape t1 ! i" "shape t2 ! i"] by fastforce
    then show "\<exists>s'. broadcast_step t1 t2 i st = Inr s' \<and> I (Suc i) s'"
    proof cases
      case eq
      have "broadcast_step t1 t2 i st
              = Inr (s1[i := strides t1 ! i], s2[i := strides t2 ! i], shp)"
        using i assms len eq by (simp add: broadcast_step_def st load_def store_def)
      moreover have "I (Suc i) (s1[i := strides t1 ! i], s2[i := strides t2 ! i], shp)"
        using len val eq i by (auto simp: I_def nth_list_update less_Suc_eq)
      ultimately show ?thesis by blast
    next
      case gt
      have "broadcast_step t1 t2 i st = Inr (s1[i := strides t1 ! i], s2, shp)"
        using i assms len gt by (simp add: broadcast_step_def st load_def store_def)
      moreover have "I (Suc i) (s1[i := strides t1 ! i], s2, shp)"
        using len val gt i by (auto simp: I_def nth_list_update less_Suc_eq)
      ultimately show ?thesis by blast
    next
      case lt
      have "broadcast_step t1 t2 i st
              = Inr (s1, s2[i := strides t2 ! i], shp[i := shape t2 ! i])"
        using i assms len lt by (simp add: broadcast_step_def st load_def store_def)
      moreover have "I (Suc i) (s1, s2[i := strides t2 ! i], shp[i := shape t2 ! i])"
        using len val lt i by (auto simp: I_def nth_list_update less_Suc_eq)
      ultimately show ?thesis by blast
    qed
  qed
  then obtain s1 s2 shp where
    r: "for_each [0..<?r] (broadcast_step t1 t2)
           (replicate ?r 0, replicate (rank t2) 0, shape t1) = Inr (s1, s2, shp)"
    and inv: "I ?r (s1, s2, shp)"
    by (metis prod_cases3)
  from inv have "s1 = broadcast_strides1 t1 t2"
    by (auto simp: I_def broadcast_strides1_def list_eq_iff_nth_eq)
  moreover from inv have "s2 = broadcast_strides2 t1 t2"
    by (auto simp: I_def broadcast_strides2_def list_eq_iff_nth_eq)
  moreover from inv have "shp = broadcast_shape t1 t2"
    by (auto simp: I_def broadcast_shape_def list_eq_iff_nth_eq)
  ultimately show ?thesis using r by simp
qed

lemma prepare_broadcast_value:
  fixes t1 t2 :: "'a Tensor"
  assumes "rank t2 = rank t1"
    and "length (shape t1) = rank t1" and "length (strides t1) = rank t1"
    and "length (shape t2) = rank t1" and "length (strides t2) = rank t1"
  shows "prepare_broadcast t1 t2
         = Inr (broadcast_strides1 t1 t2, broadcast_strides2 t1 t2,
                strides (Tensor_ctor (broadcast_shape t1 t2) :: 'a Tensor),
                Tensor_ctor (broadcast_shape t1 t2))"
proof -
  have l: "length (broadcast_strides1 t1 t2) = rank t1" "length (broadcast_strides2 t1 t2) = rank t1"
    "length (broadcast_shape t1 t2) = rank t1"
    by (simp_all add: broadcast_strides1_def broadcast_strides2_def broadcast_shape_def)
  have r: "rank (Tensor_ctor (broadcast_shape t1 t2) :: 'a Tensor) = rank t1"
    by (simp add: Tensor_ctor_def l)
  show ?thesis
    unfolding prepare_broadcast_def broadcast_loop [OF assms] Let_def
    by (simp only: r l prod.case sum.case take_all order_refl simp_thms if_True)
qed

section \<open>Elementwise kernels on operands of one shape\<close>

lemma add_thread:
  "add b d t n r s1 s2 s x y out = binary_thread (+) (ucast (b * d + t)) n r s1 s2 s x y out"
  by (simp add: add_def binary_thread_def Let_def)

lemma multiply_thread:
  "multiply b d t n r s1 s2 s x y out = binary_thread (*) (ucast (b * d + t)) n r s1 s2 s x y out"
  by (simp add: multiply_def binary_thread_def Let_def)

lemma divide_thread:
  "divide_kernel b d t n r s1 s2 s x y out
     = binary_thread divide (ucast (b * d + t)) n r s1 s2 s x y out"
  by (simp add: divide_kernel_def binary_thread_def Let_def)

lemma subtract_thread:
  assumes "0 \<le> sint (b * d + t)"
  shows "subtract b d t n r s1 s2 s x y out
           = binary_thread (-) (scast (b * d + t)) n r s1 s2 s x y out"
proof -
  have "unat (scast (b * d + t) :: size_t) = nat (sint (b * d + t))"
  proof -
    have "sint (b * d + t) < 2 ^ 31" using sint_lt [of "b * d + t"] by simp
    then have "sint (b * d + t) < 2 ^ 64" by (rule less_trans) simp
    with assms have "sint (b * d + t) mod 2 ^ 64 = sint (b * d + t)"
      by (intro mod_pos_pos_trivial)
    then show ?thesis by (simp only: unat_scast_size_t)
  qed
  with assms show ?thesis
    by (simp add: subtract_def binary_thread_def Let_def split: sum.splits prod.splits)
qed

lemma binary_thread_dense:
  assumes "length S = r" and "n \<noteq> 0 \<Longrightarrow> \<forall>i<r. S ! i \<noteq> 0" and "0 < r \<Longrightarrow> S ! (r - 1) = 1"
    and "r = 0 \<Longrightarrow> n = 1"
    and "length a = unat n" and "length b = unat n" and "k < 2 ^ 64"
  shows "binary_thread f (of_nat k) n r S S S a b out
           = (case (if k < unat n then Some (k, lift2 f (a ! k) (b ! k)) else None) of
                None \<Rightarrow> Inr out | Some (p, v) \<Rightarrow> store out p v)"
proof (cases "k < unat n")
  case False
  then have "\<not> (of_nat k :: size_t) < n"
    using assms(7) by (simp add: word_less_nat_alt unat_size_t_of_nat)
  with False show ?thesis by (simp add: binary_thread_def)
next
  case True
  then have lt: "(of_nat k :: size_t) < n"
    using assms(7) by (simp add: word_less_nat_alt unat_size_t_of_nat)
  then have n0: "n \<noteq> 0" by auto
  have "r = 0 \<Longrightarrow> (of_nat k :: size_t) = 0"
    using assms(4) True by simp
  with assms n0 have "get_indices (of_nat k) r S S S = Inr (of_nat k, of_nat k)"
    by (intro get_indices_same_strides) simp_all
  with lt True assms show ?thesis
    by (simp add: binary_thread_def load_def unat_size_t_of_nat)
qed

lemma grid_size:
  fixes n :: size_t
  assumes "unat n \<le> 2 ^ 32"
  shows "unat (ucast ((n + 255) div 256) :: c_uint) = (unat n + 255) div 256"
proof -
  have "unat n + unat (255 :: size_t) < 2 ^ LENGTH(64)"
    using assms by simp
  then have "unat (n + 255) = unat n + unat (255 :: size_t)"
    by (rule unat_add_lem [THEN iffD1])
  then have "unat (n + 255) = unat n + 255"
    by simp
  then have d: "unat ((n + 255) div 256) = (unat n + 255) div 256"
    by (simp add: unat_div)
  have "(unat n + 255) div 256 < 2 ^ 32"
    using assms by simp
  then have "take_bit LENGTH(32) ((unat n + 255) div 256) = (unat n + 255) div 256"
    by (simp add: take_bit_nat_eq_self)
  then show ?thesis
    by (simp only: unsigned_ucast_eq d)
qed

lemma launch_1d_within_limits:
  fixes n :: size_t
  assumes "unat n \<le> 2 ^ 32"
  shows "launch_1d (ucast ((n + 255) div 256)) 256 kern m
     = for_each [0..<(unat n + 255) div 256 * 256]
         (\<lambda>k. kern (of_nat (k div 256)) 256 (of_nat (k mod 256))) m"
proof -
  have "(unat n + 255) div 256 \<le> 2147483647" using assms by simp
  then have "\<not> 2147483647 < (ucast ((n + 255) div 256) :: c_uint)"
    by (simp add: word_less_nat_alt grid_size [OF assms])
  moreover have "\<not> 1024 < (256 :: c_uint)" by simp
  ultimately show ?thesis
    by (simp add: launch_1d_def grid_size [OF assms])
qed

lemma launch_binary_dense:
  fixes f :: "'a \<Rightarrow> 'a \<Rightarrow> 'a" and n :: size_t
  assumes kern: "\<And>k buf. k < G \<Longrightarrow>
             body k buf = binary_thread f (of_nat k) n r S S S a b buf"
    and "length S = r" and "n \<noteq> 0 \<Longrightarrow> \<forall>i<r. S ! i \<noteq> 0" and "0 < r \<Longrightarrow> S ! (r - 1) = 1"
    and "r = 0 \<Longrightarrow> n = 1"
    and "length a = unat n" and "length b = unat n"
    and "unat n \<le> G" and "G \<le> 2 ^ 64"
  shows "for_each [0..<G] body (replicate (unat n) None) = Inr (elementwise f a b)"
proof -
  define act where "act = (\<lambda>k. if k < unat n then Some (k, lift2 f (a ! k) (b ! k)) else None)"
  have "for_each [0..<G] body (replicate (unat n) None)
          = Inr (apply_writes (map act [0..<G]) (replicate (unat n) None))"
  proof (rule for_each_writes [where n = "unat n"])
    fix k and buf :: "'a buffer"
    assume "k \<in> set [0..<G]"
    then have k: "k < G" by simp
    with assms(9) have "k < 2 ^ 64" by simp
    then have "binary_thread f (of_nat k) n r S S S a b buf
           = (case (if k < unat n then Some (k, lift2 f (a ! k) (b ! k)) else None) of
                None \<Rightarrow> Inr buf | Some (p, v) \<Rightarrow> store buf p v)"
      using assms(2-7) by (intro binary_thread_dense) simp_all
    with kern [OF k]
    show "body k buf = (case act k of None \<Rightarrow> Inr buf | Some (p, v) \<Rightarrow> store buf p v)"
      unfolding act_def by simp
  next
    fix k p v assume "act k = Some (p, v)"
    then show "p < unat n" by (auto simp: act_def split: if_splits)
  qed simp
  moreover have "apply_writes (map act [0..<G]) (replicate (unat n) None) = elementwise f a b"
  proof (rule nth_equalityI)
    show "length (apply_writes (map act [0..<G]) (replicate (unat n) None))
            = length (elementwise f a b)"
      using assms(6,7) by (simp add: length_apply_writes elementwise_def)
  next
    fix p assume "p < length (apply_writes (map act [0..<G]) (replicate (unat n) None))"
    then have p: "p < unat n" by (simp add: length_apply_writes)
    have "apply_writes (map act [0..<G]) (replicate (unat n) None) ! p
            = lift2 f (a ! p) (b ! p)"
    proof (rule apply_writes_written)
      show "Some (p, lift2 f (a ! p) (b ! p)) \<in> set (map act [0..<G])"
        using p assms(8) by (auto simp: act_def image_iff intro!: bexI [of _ p])
    next
      fix v' assume "Some (p, v') \<in> set (map act [0..<G])"
      then show "v' = lift2 f (a ! p) (b ! p)"
        by (auto simp: act_def split: if_splits)
    next
      show "p < length (replicate (unat n) (None :: 'a option))" using p by simp
    qed
    with p assms(6,7) show "apply_writes (map act [0..<G]) (replicate (unat n) None) ! p
            = elementwise f a b ! p"
      by (simp add: elementwise_def)
  qed
  ultimately show ?thesis by simp
qed

lemma thread_number_256:
  "(of_nat (k div 256) :: c_uint) * 256 + of_nat (k mod 256) = of_nat k"
  using thread_number [of k 256] by simp

lemma grid_covers:
  fixes n :: size_t
  assumes "unat n \<le> 2 ^ m" and "8 \<le> m"
  shows "unat n \<le> (unat n + 255) div 256 * 256" and "(unat n + 255) div 256 * 256 \<le> 2 ^ m"
proof -
  show "unat n \<le> (unat n + 255) div 256 * 256" by arith
  obtain j where m: "m = 8 + j" using assms(2) le_Suc_ex by blast
  have "(unat n + 255) div 256 \<le> 2 ^ j"
  proof -
    have "unat n + 255 < 256 * (2 ^ j + 1)" using assms(1) by (simp add: m power_add)
    then have "(unat n + 255) div 256 < 2 ^ j + 1"
      by (simp add: div_less_iff_less_mult)
    then show ?thesis by simp
  qed
  then have "(unat n + 255) div 256 * 256 \<le> 2 ^ j * 256" by simp
  then show "(unat n + 255) div 256 * 256 \<le> 2 ^ m" by (simp add: m power_add mult.commute)
qed

lemma launch_size_t_index:
  fixes f :: "'a \<Rightarrow> 'a \<Rightarrow> 'a" and n :: size_t
  assumes kern: "\<And>bi ti buf. kern bi (256 :: c_uint) ti buf
                   = binary_thread f (ucast (bi * 256 + ti)) n r S S S a b buf"
    and "length S = r" and "n \<noteq> 0 \<Longrightarrow> \<forall>i<r. S ! i \<noteq> 0" and "0 < r \<Longrightarrow> S ! (r - 1) = 1"
    and "r = 0 \<Longrightarrow> n = 1"
    and "length a = unat n" and "length b = unat n"
    and "unat n \<le> 2 ^ 32"
  shows "launch_1d (ucast ((n + 255) div 256)) 256 kern (replicate (unat n) None)
           = Inr (elementwise f a b)"
proof -
  let ?G = "(unat n + 255) div 256 * 256"
  have G: "unat n \<le> ?G" "?G \<le> 2 ^ 32"
    using grid_covers [OF assms(8)] by simp_all
  have "for_each [0..<?G] (\<lambda>k. kern (of_nat (k div 256)) 256 (of_nat (k mod 256)))
          (replicate (unat n) None) = Inr (elementwise f a b)"
  proof (rule launch_binary_dense [where n = n and r = r and S = S])
    fix k and buf :: "'a buffer" assume "k < ?G"
    with G have "k < 2 ^ 32" by simp
    then show "kern (of_nat (k div 256)) 256 (of_nat (k mod 256)) buf
                 = binary_thread f (of_nat k) n r S S S a b buf"
      by (simp only: kern thread_number_256 ucast_thread_number)
  next
    show "?G \<le> 2 ^ 64" using G(2) by (rule order_trans) simp
  qed (use assms G in simp_all)
  then show ?thesis
    by (simp only: launch_1d_within_limits [OF assms(8)])
qed

lemma launch_int_index:
  fixes n :: size_t
  assumes kern: "\<And>bi ti buf. kern bi (256 :: c_uint) ti buf
                   = subtract bi 256 ti n r S S S a b buf"
    and "length S = r" and "n \<noteq> 0 \<Longrightarrow> \<forall>i<r. S ! i \<noteq> 0" and "0 < r \<Longrightarrow> S ! (r - 1) = 1"
    and "r = 0 \<Longrightarrow> n = 1"
    and "length a = unat n" and "length b = unat n"
    and "unat n \<le> 2 ^ 31"
  shows "launch_1d (ucast ((n + 255) div 256)) 256 kern (replicate (unat n) None)
           = Inr (elementwise (-) a b)"
proof -
  let ?G = "(unat n + 255) div 256 * 256"
  have n32: "unat n \<le> 2 ^ 32" using assms(8) by (rule order_trans) simp
  have G: "unat n \<le> ?G" "?G \<le> 2 ^ 31"
    using grid_covers [OF assms(8)] by simp_all
  have "for_each [0..<?G] (\<lambda>k. kern (of_nat (k div 256)) 256 (of_nat (k mod 256)))
          (replicate (unat n) None) = Inr (elementwise (-) a b)"
  proof (rule launch_binary_dense [where n = n and r = r and S = S])
    fix k and buf :: "'a buffer" assume "k < ?G"
    with G have k: "k < 2 ^ 31" by simp
    then have "0 \<le> sint (of_nat (k div 256) * 256 + of_nat (k mod 256) :: c_int)"
      by (simp only: thread_number_256 sint_thread_number)
    then have "subtract (of_nat (k div 256)) 256 (of_nat (k mod 256)) n r S S S a b buf
       = binary_thread (-) (scast (of_nat (k div 256) * 256 + of_nat (k mod 256) :: c_int)) n r S S S a b buf"
      by (rule subtract_thread)
    with k show "kern (of_nat (k div 256)) 256 (of_nat (k mod 256)) buf
                 = binary_thread (-) (of_nat k) n r S S S a b buf"
      by (simp only: kern thread_number_256 scast_thread_number)
  next
    show "?G \<le> 2 ^ 64" using G(2) by (rule order_trans) simp
  qed (use assms G in simp_all)
  then show ?thesis
    by (simp only: launch_1d_within_limits [OF n32])
qed

lemma prepare_broadcast_same_shape:
  fixes A B :: "'a Tensor"
  assumes "dense_row_major A" and "dense_row_major B" and "shape B = shape A"
  shows "prepare_broadcast A B
           = Inr (strides A, strides A, strides A, Tensor_ctor (shape A))"
proof -
  from assms have r: "rank A = length (shape A)" "rank B = rank A"
    and sA: "strides A = strides (Tensor_ctor (shape A) :: 'a Tensor)"
    and sB: "strides B = strides A"
    by (simp_all add: dense_row_major_def)
  have l: "length (strides A) = rank A"
    by (simp add: sA ctor_strides_length r)
  have "broadcast_strides1 A B = strides A"
    by (simp add: broadcast_strides1_def assms(3) l [symmetric] map_nth)
  moreover have "broadcast_strides2 A B = strides A"
    by (simp add: broadcast_strides2_def assms(3) sB l [symmetric] map_nth)
  moreover have "broadcast_shape A B = shape A"
    by (simp add: broadcast_shape_def assms(3) r(1) map_nth)
  moreover have "prepare_broadcast A B
         = Inr (broadcast_strides1 A B, broadcast_strides2 A B,
                strides (Tensor_ctor (broadcast_shape A B) :: 'a Tensor),
                Tensor_ctor (broadcast_shape A B))"
    using r l sB assms(3) by (intro prepare_broadcast_value) simp_all
  ultimately show ?thesis by (simp add: sA [symmetric])
qed

lemma count_elements_Nil: "count_elements [] = 1"
  by (simp add: count_elements_def)

lemma dense_launch_conditions:
  fixes A :: "'a Tensor"
  assumes "dense_row_major A"
  shows "length (strides A) = rank A"
    and "n_elements A \<noteq> 0 \<Longrightarrow> \<forall>i<rank A. strides A ! i \<noteq> 0"
    and "0 < rank A \<Longrightarrow> strides A ! (rank A - 1) = 1"
    and "rank A = 0 \<Longrightarrow> n_elements A = 1"
proof -
  from assms have r: "rank A = length (shape A)"
    and sA: "strides A = strides (Tensor_ctor (shape A) :: 'a Tensor)"
    and n: "n_elements A = count_elements (shape A)"
    by (simp_all add: dense_row_major_def)
  show "length (strides A) = rank A" by (simp add: sA ctor_strides_length r)
  show "n_elements A \<noteq> 0 \<Longrightarrow> \<forall>i<rank A. strides A ! i \<noteq> 0"
    using ctor_strides_nonzero [where 'a = 'a and shp = "shape A"] by (simp add: sA [symmetric] r n)
  show "0 < rank A \<Longrightarrow> strides A ! (rank A - 1) = 1"
    using ctor_strides_last [where 'a = 'a and shp = "shape A"] by (simp add: sA [symmetric] r)
  show "rank A = 0 \<Longrightarrow> n_elements A = 1"
    by (simp add: r n count_elements_Nil)
qed

lemma ctor_fields:
  "n_elements (Tensor_ctor s :: 'a Tensor) = count_elements s"
  "rank (Tensor_ctor s :: 'a Tensor) = length s"
  "data (Tensor_ctor s :: 'a Tensor) = replicate (unat (count_elements s)) None"
  "shape (Tensor_ctor s :: 'a Tensor) = s"
  "backward (Tensor_ctor s :: 'a Tensor) = None"
  by (simp_all add: Tensor_ctor_def)

lemma operator_plus_same_shape:
  fixes A B :: "('a::plus) Tensor"
  assumes "dense_row_major A" and "dense_row_major B" and "shape B = shape A"
    and "unat (n_elements A) \<le> 2 ^ 32"
  shows "operator_plus A B
           = Inr ((Tensor_ctor (shape A))\<lparr> data := elementwise (+) (data A) (data B) \<rparr>)"
proof -
  from assms have n: "n_elements A = count_elements (shape A)" "rank A = length (shape A)"
    and len: "length (data A) = unat (n_elements A)" "length (data B) = unat (n_elements A)"
    by (simp_all add: dense_row_major_def)
  have "launch_1d (ucast ((n_elements A + 255) div 256)) 256
          (\<lambda>b d t. add b d t (n_elements A) (rank A) (strides A) (strides A) (strides A)
                      (data A) (data B))
          (replicate (unat (n_elements A)) None)
        = Inr (elementwise (+) (data A) (data B))"
    using dense_launch_conditions [OF assms(1)] len assms(4)
    by (intro launch_size_t_index) (simp_all add: add_thread)
  then show ?thesis
    by (simp add: operator_plus_def prepare_broadcast_same_shape [OF assms(1-3)] ctor_fields
          flip: n)
qed

section \<open>Concrete runs\<close>

lemma from_vector_examples:
  "from_vector [1, 2] [2] = Inr vector_1_2"
  "from_vector [3, 4] [2] = Inr vector_3_4"
  "from_vector [1, 2, 3, 4] [2, 2] = Inr matrix_1_2_3_4"
  "from_vector [5, 6, 7, 8] [2, 2] = Inr matrix_5_6_7_8"
  by code_simp+

lemma example_plus:
  "operator_plus vector_1_2 vector_3_4
     = Inr \<lparr> data = [Some 4, Some 6], shape = [2], rank = 1, strides = [1],
              n_elements = 2, backward = None \<rparr>"
  by code_simp

lemma example_minus:
  "operator_minus vector_1_2 vector_3_4
     = Inr \<lparr> data = [Some (- 2), Some (- 2)], shape = [2], rank = 1, strides = [1],
              n_elements = 2, backward = None \<rparr>"
  by code_simp

lemma example_divide:
  "operator_divide vector_3_4 vector_1_2
     = Inr \<lparr> data = [Some 3, Some 2], shape = [2], rank = 1, strides = [1],
              n_elements = 2, backward = None \<rparr>"
  by code_simp

lemma example_times:
  "operator_times [] vector_1_2 vector_3_4
     = Inr (\<lparr> data = [Some 3, Some 8], shape = [2], rank = 1, strides = [1],
               n_elements = 2, backward = Some 0 \<rparr>,
            [\<lparr> kind = MultiplyBackward, tensors = [vector_1_2, vector_3_4],
               backwards = [None, None] \<rparr>])"
  by code_simp

lemma example_mm:
  "mm matrix_1_2_3_4 matrix_5_6_7_8
     = Inr \<lparr> data = [Some 19, Some 22, Some 43, Some 50], shape = [2, 2], rank = 2,
              strides = [2, 1], n_elements = 4, backward = None \<rparr>"
  by code_simp

lemma example_broadcast_plus:
  "operator_plus matrix_2x3 row_1x3
     = Inr \<lparr> data = [Some 11, Some 22, Some 33, Some 14, Some 25, Some 36], shape = [2, 3],
              rank = 2, strides = [3, 1], n_elements = 6, backward = None \<rparr>"
  by code_simp

section \<open>Operators without a node\<close>

lemma prepare_broadcast_backward:
  "prepare_broadcast t1 t2 = Inr (s1, s2, s, out) \<Longrightarrow> backward out = None"
  by (auto simp: prepare_broadcast_def Let_def ctor_fields split: sum.splits prod.splits if_splits)

lemma operator_plus_backward: "operator_plus A B = Inr R \<Longrightarrow> backward R = None"
  by (auto simp: operator_plus_def dest: prepare_broadcast_backward split: sum.splits prod.splits)

lemma operator_minus_backward: "operator_minus A B = Inr R \<Longrightarrow> backward R = None"
  by (auto simp: operator_minus_def dest: prepare_broadcast_backward split: sum.splits prod.splits)

lemma operator_divide_backward: "operator_divide A B = Inr R \<Longrightarrow> backward R = None"
  by (auto simp: operator_divide_def dest: prepare_broadcast_backward split: sum.splits prod.splits)

lemma mm_backward: "mm A B = Inr R \<Longrightarrow> backward R = None"
  by (auto simp: mm_def Let_def ctor_fields split: sum.splits if_splits)

lemma gradients_null: "backward t = None \<Longrightarrow> gradients h t = Inl NullNode"
  by (simp add: gradients_def)

text \<open>
  C5. Whatever the operands, a result of \<^verbatim>\<open>+\<close>, \<^verbatim>\<open>-\<close>, \<^verbatim>\<open>/\<close> or \<^verbatim>\<open>mm\<close> has the null pointer for
  its node, and \<^verbatim>\<open>gradients()\<close> on it dereferences that null pointer: the fault \<open>NullNode\<close>,
  not a tensor of zeros.
\<close>

theorem no_node_on_add_sub_div_mm:
  "(operator_plus A B = Inr R \<longrightarrow> backward R = None \<and> gradients h R = Inl NullNode)
   \<and> (operator_minus A' B' = Inr R' \<longrightarrow> backward R' = None \<and> gradients h R' = Inl NullNode)
   \<and> (operator_divide A'' B'' = Inr R'' \<longrightarrow> backward R'' = None \<and> gradients h R'' = Inl NullNode)
   \<and> (mm M N = Inr P \<longrightarrow> backward P = None \<and> gradients h P = Inl NullNode)"
  by (simp add: operator_plus_backward operator_minus_backward operator_divide_backward
        mm_backward gradients_null)

theorem no_node_on_add_sub_div_mm_witness:
  "(\<exists>R. operator_plus vector_1_2 vector_3_4 = Inr R
        \<and> backward R = None \<and> gradients ([] :: int node_store) R = Inl NullNode)
   \<and> (\<exists>R. operator_minus vector_1_2 vector_3_4 = Inr R
        \<and> backward R = None \<and> gradients ([] :: int node_store) R = Inl NullNode)
   \<and> (\<exists>R. operator_divide vector_3_4 vector_1_2 = Inr R
        \<and> backward R = None \<and> gradients ([] :: int node_store) R = Inl NullNode)
   \<and> (\<exists>R. mm matrix_1_2_3_4 matrix_5_6_7_8 = Inr R
        \<and> backward R = None \<and> gradients ([] :: int node_store) R = Inl NullNode)"
  using no_node_on_add_sub_div_mm [where h = "[] :: int node_store",
          THEN conjunct1, rule_format, OF example_plus]
        no_node_on_add_sub_div_mm [where h = "[] :: int node_store",
          THEN conjunct2, THEN conjunct1, rule_format, OF example_minus]
        no_node_on_add_sub_div_mm [where h = "[] :: int node_store",
          THEN conjunct2, THEN conjunct2, THEN conjunct1, rule_format, OF example_divide]
        no_node_on_add_sub_div_mm [where h = "[] :: int node_store",
          THEN conjunct2, THEN conjunct2, THEN conjunct2, rule_format, OF example_mm]
        example_plus example_minus example_divide example_mm
  by blast

section \<open>The node of a product\<close>

text \<open>
  C10. Whatever the operands and their nodes, a result of \<^verbatim>\<open>*\<close> has a node, and
  \<^verbatim>\<open>gradients()\<close> on that result returns the first stored tensor of that node: the first
  operand, not a fault and not an accumulated gradient.
\<close>

theorem product_gradients_is_first_operand:
  assumes "operator_times h A B = Inr (P, h')"
  shows "backward P \<noteq> None \<and> gradients h' P = Inr A"
  using assms
  by (auto simp: operator_times_def gradients_def load_def nth_append split: sum.splits prod.splits)

theorem product_gradients_is_first_operand_witness:
  "\<exists>P h'. operator_times [] vector_1_2 vector_3_4 = Inr (P, h')
     \<and> backward P \<noteq> None \<and> gradients h' P = Inr vector_1_2"
  using product_gradients_is_first_operand [OF example_times] example_times by blast

section \<open>The public sum\<close>

lemma count_elements_ones: "count_elements (replicate r 1) = 1"
  by (induction r) (simp_all add: count_elements_prod)

text \<open>
  What the public \<^verbatim>\<open>sum\<close> returns for an input with at least one element: the shape is 1
  in each dimension, and the single cell holds 1 or 0 as the input's first element is
  positive or not.
\<close>

lemma sum_tensor_value:
  fixes input :: "('a::{zero,one,ord}) Tensor"
  assumes "n_elements input \<noteq> 0" and "data input \<noteq> []"
  shows "sum_tensor input
           = Inr ((Tensor_ctor (replicate (rank input) 1))
                    \<lparr> data := [map_option (\<lambda>v. if v > 0 then 1 else 0) (data input ! 0)] \<rparr>)"
proof -
  have "relu_d 0 1 0 (n_elements input) (data input) [None]
          = Inr [map_option (\<lambda>v. if v > 0 then 1 else 0) (data input ! 0)]"
    using assms by (simp add: relu_d_def load_def store_def word_greater_zero_iff)
  then show ?thesis
    by (simp add: sum_tensor_def launch_1d_def ctor_fields count_elements_ones)
qed

text \<open>
  C1. On the vector \<open>[3, 4]\<close> the public \<^verbatim>\<open>sum\<close> returns shape \<open>[1]\<close> and the element 1, where
  the sum of the elements is 7, which is what the kernel \<^verbatim>\<open>sum\<close> computes from the same
  buffer. The public operation launches \<^verbatim>\<open>relu_d\<close>, not \<^verbatim>\<open>sum\<close>.
\<close>

theorem sum_tensor_runs_relu_d:
  "sum_tensor vector_3_4
     = Inr \<lparr> data = [Some 1], shape = [1], rank = 1, strides = [1], n_elements = 1,
              backward = None \<rparr>
   \<and> sum_kernel (n_elements vector_3_4) (data vector_3_4) [None] = Inr [Some 7]"
  by code_simp


section \<open>The rule of the broadcast resolver\<close>

lemma row_reuse_offsets:
  "map (\<lambda>k. get_indices (of_nat k) 2 [3, 1] [0, 1] [3, 1]) [0..<6]
     = [Inr (0, 0), Inr (1, 1), Inr (2, 2), Inr (3, 0), Inr (4, 1), Inr (5, 2)]"
  by code_simp

lemma upt_2: "[0..<2] = [0, 1]"
  by code_simp

lemma ctor_2_3: "strides (Tensor_ctor [2, 3] :: 'a Tensor) = [3, 1]"
  "n_elements (Tensor_ctor [2, 3] :: 'a Tensor) = 6"
  by (simp_all add: Tensor_ctor_def count_elements_def eval_nat_numeral)

text \<open>
  C2. For two tensors of equal rank the resolver returns, in every dimension: both real
  strides where the sizes agree; where they differ, the real stride of the operand with
  the larger size, stride 0 for the other operand, and the larger size as the output
  size. In particular, for shapes \<open>[2, 3]\<close> and \<open>[1, 3]\<close> the output shape is \<open>[2, 3]\<close>, the
  second operand's strides become \<open>[0, 1]\<close>, and the six output cells read the second
  operand at offsets 0, 1, 2, 0, 1, 2: its one row, for both output rows.
\<close>

theorem broadcast_resolver_rule:
  fixes t1 t2 :: "'a Tensor"
  assumes "rank t2 = rank t1"
    and "length (shape t1) = rank t1" and "length (strides t1) = rank t1"
    and "length (shape t2) = rank t1" and "length (strides t2) = rank t1"
  shows "(\<exists>s1 s2 out. prepare_broadcast t1 t2 = Inr (s1, s2, strides out, out)
            \<and> out = Tensor_ctor (shape out)
            \<and> length s1 = rank t1 \<and> length s2 = rank t1 \<and> length (shape out) = rank t1
            \<and> (\<forall>i<rank t1.
                  (shape t1 ! i = shape t2 ! i \<longrightarrow>
                     s1 ! i = strides t1 ! i \<and> s2 ! i = strides t2 ! i
                     \<and> shape out ! i = shape t1 ! i)
                \<and> (sint (shape t2 ! i) < sint (shape t1 ! i) \<longrightarrow>
                     s1 ! i = strides t1 ! i \<and> s2 ! i = 0 \<and> shape out ! i = shape t1 ! i)
                \<and> (sint (shape t1 ! i) < sint (shape t2 ! i) \<longrightarrow>
                     s1 ! i = 0 \<and> s2 ! i = strides t2 ! i \<and> shape out ! i = shape t2 ! i)))
       \<and> (shape t1 = [2, 3] \<and> strides t1 = [3, 1] \<and> shape t2 = [1, 3] \<and> strides t2 = [3, 1] \<longrightarrow>
            (\<exists>out. prepare_broadcast t1 t2 = Inr ([3, 1], [0, 1], strides out, out)
               \<and> shape out = [2, 3]
               \<and> map (\<lambda>k. get_indices (of_nat k) (rank out) [3, 1] [0, 1] (strides out)) [0..<6]
                   = [Inr (0, 0), Inr (1, 1), Inr (2, 2), Inr (3, 0), Inr (4, 1), Inr (5, 2)]))"
proof (intro conjI impI)
  let ?out = "Tensor_ctor (broadcast_shape t1 t2) :: 'a Tensor"
  have pb: "prepare_broadcast t1 t2
         = Inr (broadcast_strides1 t1 t2, broadcast_strides2 t1 t2, strides ?out, ?out)"
    using assms by (rule prepare_broadcast_value)
  have "shape ?out = broadcast_shape t1 t2" by (simp add: ctor_fields)
  then have "?out = Tensor_ctor (shape ?out)" by simp
  moreover have "length (broadcast_strides1 t1 t2) = rank t1"
    "length (broadcast_strides2 t1 t2) = rank t1" "length (shape ?out) = rank t1"
    by (simp_all add: broadcast_strides1_def broadcast_strides2_def broadcast_shape_def ctor_fields)
  moreover have "\<forall>i<rank t1.
                  (shape t1 ! i = shape t2 ! i \<longrightarrow>
                     broadcast_strides1 t1 t2 ! i = strides t1 ! i
                     \<and> broadcast_strides2 t1 t2 ! i = strides t2 ! i
                     \<and> shape ?out ! i = shape t1 ! i)
                \<and> (sint (shape t2 ! i) < sint (shape t1 ! i) \<longrightarrow>
                     broadcast_strides1 t1 t2 ! i = strides t1 ! i
                     \<and> broadcast_strides2 t1 t2 ! i = 0 \<and> shape ?out ! i = shape t1 ! i)
                \<and> (sint (shape t1 ! i) < sint (shape t2 ! i) \<longrightarrow>
                     broadcast_strides1 t1 t2 ! i = 0
                     \<and> broadcast_strides2 t1 t2 ! i = strides t2 ! i
                     \<and> shape ?out ! i = shape t2 ! i)"
    by (simp add: broadcast_strides1_def broadcast_strides2_def broadcast_shape_def ctor_fields)
  ultimately show "\<exists>s1 s2 out. prepare_broadcast t1 t2 = Inr (s1, s2, strides out, out)
            \<and> out = Tensor_ctor (shape out)
            \<and> length s1 = rank t1 \<and> length s2 = rank t1 \<and> length (shape out) = rank t1
            \<and> (\<forall>i<rank t1.
                  (shape t1 ! i = shape t2 ! i \<longrightarrow>
                     s1 ! i = strides t1 ! i \<and> s2 ! i = strides t2 ! i
                     \<and> shape out ! i = shape t1 ! i)
                \<and> (sint (shape t2 ! i) < sint (shape t1 ! i) \<longrightarrow>
                     s1 ! i = strides t1 ! i \<and> s2 ! i = 0 \<and> shape out ! i = shape t1 ! i)
                \<and> (sint (shape t1 ! i) < sint (shape t2 ! i) \<longrightarrow>
                     s1 ! i = 0 \<and> s2 ! i = strides t2 ! i \<and> shape out ! i = shape t2 ! i))"
    using pb by blast
next
  assume c: "shape t1 = [2, 3] \<and> strides t1 = [3, 1] \<and> shape t2 = [1, 3] \<and> strides t2 = [3, 1]"
  with assms(2) have r: "rank t1 = 2" by simp
  let ?out = "Tensor_ctor [2, 3] :: 'a Tensor"
  have b: "broadcast_strides1 t1 t2 = [3, 1]" "broadcast_strides2 t1 t2 = [0, 1]"
    "broadcast_shape t1 t2 = [2, 3]"
    using c by (simp_all add: broadcast_strides1_def broadcast_strides2_def broadcast_shape_def r upt_2)
  have "prepare_broadcast t1 t2 = Inr ([3, 1], [0, 1], strides ?out, ?out)"
    using prepare_broadcast_value [OF assms] by (simp add: b)
  moreover have "shape ?out = [2, 3]" "rank ?out = 2" by (simp_all add: ctor_fields)
  moreover note row_reuse_offsets ctor_2_3(1) [where 'a = 'a]
  ultimately show "\<exists>out. prepare_broadcast t1 t2 = Inr ([3, 1], [0, 1], strides out, out)
               \<and> shape out = [2, 3]
               \<and> map (\<lambda>k. get_indices (of_nat k) (rank out) [3, 1] [0, 1] (strides out)) [0..<6]
                   = [Inr (0, 0), Inr (1, 1), Inr (2, 2), Inr (3, 0), Inr (4, 1), Inr (5, 2)]"
    by (intro exI [of _ ?out]) (simp only: simp_thms)
qed

theorem broadcast_resolver_rule_witness:
  "rank row_1x3 = rank matrix_2x3
   \<and> length (shape matrix_2x3) = rank matrix_2x3 \<and> length (strides matrix_2x3) = rank matrix_2x3
   \<and> length (shape row_1x3) = rank matrix_2x3 \<and> length (strides row_1x3) = rank matrix_2x3
   \<and> shape matrix_2x3 = [2, 3] \<and> shape row_1x3 = [1, 3]
   \<and> (\<exists>out. prepare_broadcast matrix_2x3 row_1x3 = Inr ([3, 1], [0, 1], strides out, out)
          \<and> shape out = [2, 3]
          \<and> map (\<lambda>k. get_indices (of_nat k) (rank out) [3, 1] [0, 1] (strides out)) [0..<6]
              = [Inr (0, 0), Inr (1, 1), Inr (2, 2), Inr (3, 0), Inr (4, 1), Inr (5, 2)])
   \<and> operator_plus matrix_2x3 row_1x3
       = Inr \<lparr> data = [Some 11, Some 22, Some 33, Some 14, Some 25, Some 36], shape = [2, 3],
                rank = 2, strides = [3, 1], n_elements = 6, backward = None \<rparr>"
proof -
  have h: "rank row_1x3 = rank matrix_2x3"
    "length (shape matrix_2x3) = rank matrix_2x3" "length (strides matrix_2x3) = rank matrix_2x3"
    "length (shape row_1x3) = rank matrix_2x3" "length (strides row_1x3) = rank matrix_2x3"
    by (simp_all add: matrix_2x3_def row_1x3_def)
  have c: "shape matrix_2x3 = [2, 3] \<and> strides matrix_2x3 = [3, 1]
           \<and> shape row_1x3 = [1, 3] \<and> strides row_1x3 = [3, 1]"
    by (simp add: matrix_2x3_def row_1x3_def)
  from broadcast_resolver_rule [OF h, THEN conjunct2, rule_format, OF c] h c example_broadcast_plus
  show ?thesis by blast
qed

section \<open>Operands of one shape: all four operators\<close>

lemma operator_divide_same_shape:
  fixes A B :: "('a::divide) Tensor"
  assumes "dense_row_major A" and "dense_row_major B" and "shape B = shape A"
    and "unat (n_elements A) \<le> 2 ^ 32"
  shows "operator_divide A B
           = Inr ((Tensor_ctor (shape A))\<lparr> data := elementwise divide (data A) (data B) \<rparr>)"
proof -
  from assms have n: "n_elements A = count_elements (shape A)" "rank A = length (shape A)"
    and len: "length (data A) = unat (n_elements A)" "length (data B) = unat (n_elements A)"
    by (simp_all add: dense_row_major_def)
  have "launch_1d (ucast ((n_elements A + 255) div 256)) 256
          (\<lambda>b d t. divide_kernel b d t (n_elements A) (rank A) (strides A) (strides A) (strides A)
                      (data A) (data B))
          (replicate (unat (n_elements A)) None)
        = Inr (elementwise divide (data A) (data B))"
    using dense_launch_conditions [OF assms(1)] len assms(4)
    by (intro launch_size_t_index) (simp_all add: divide_thread)
  then show ?thesis
    by (simp add: operator_divide_def prepare_broadcast_same_shape [OF assms(1-3)] ctor_fields
          flip: n)
qed

lemma operator_times_same_shape:
  fixes A B :: "('a::times) Tensor"
  assumes "dense_row_major A" and "dense_row_major B" and "shape B = shape A"
    and "unat (n_elements A) \<le> 2 ^ 32"
  shows "operator_times h A B
           = Inr ((Tensor_ctor (shape A))\<lparr> data := elementwise (*) (data A) (data B),
                                            backward := Some (length h) \<rparr>,
                  h @ [\<lparr> kind = MultiplyBackward, tensors = [A, B],
                         backwards = [backward A, backward B] \<rparr>])"
proof -
  from assms have n: "n_elements A = count_elements (shape A)" "rank A = length (shape A)"
    and len: "length (data A) = unat (n_elements A)" "length (data B) = unat (n_elements A)"
    by (simp_all add: dense_row_major_def)
  have "launch_1d (ucast ((n_elements A + 255) div 256)) 256
          (\<lambda>b d t. multiply b d t (n_elements A) (rank A) (strides A) (strides A) (strides A)
                      (data A) (data B))
          (replicate (unat (n_elements A)) None)
        = Inr (elementwise (*) (data A) (data B))"
    using dense_launch_conditions [OF assms(1)] len assms(4)
    by (intro launch_size_t_index) (simp_all add: multiply_thread)
  then show ?thesis
    by (simp add: operator_times_def prepare_broadcast_same_shape [OF assms(1-3)] ctor_fields
          flip: n)
qed

lemma operator_minus_same_shape:
  fixes A B :: "('a::minus) Tensor"
  assumes "dense_row_major A" and "dense_row_major B" and "shape B = shape A"
    and "unat (n_elements A) \<le> 2 ^ 31"
  shows "operator_minus A B
           = Inr ((Tensor_ctor (shape A))\<lparr> data := elementwise (-) (data A) (data B) \<rparr>)"
proof -
  from assms have n: "n_elements A = count_elements (shape A)" "rank A = length (shape A)"
    and len: "length (data A) = unat (n_elements A)" "length (data B) = unat (n_elements A)"
    by (simp_all add: dense_row_major_def)
  have "launch_1d (ucast ((n_elements A + 255) div 256)) 256
          (\<lambda>b d t. subtract b d t (n_elements A) (rank A) (strides A) (strides A) (strides A)
                      (data A) (data B))
          (replicate (unat (n_elements A)) None)
        = Inr (elementwise (-) (data A) (data B))"
    using dense_launch_conditions [OF assms(1)] len assms(4)
    by (intro launch_int_index) simp_all
  then show ?thesis
    by (simp add: operator_minus_def prepare_broadcast_same_shape [OF assms(1-3)] ctor_fields
          flip: n)
qed

text \<open>
  Within these limits the broadcast path and plain elementwise arithmetic agree on
  operands of one shape with dense strides: up to \<open>2 ^ 32\<close> elements for \<^verbatim>\<open>+\<close>, \<^verbatim>\<open>*\<close> and \<^verbatim>\<open>/\<close>,
  whose thread number is an \<^verbatim>\<open>unsigned int\<close> widened to \<^verbatim>\<open>size_t\<close>, and up to \<open>2 ^ 31\<close>
  elements for \<^verbatim>\<open>-\<close>, whose thread number is kept in an \<^verbatim>\<open>int\<close>. The decode of the flat
  index through the output strides, weighted with the operand's strides, is the identity
  here (\<open>get_indices_same_strides\<close>).
\<close>

lemma equal_shape_elementwise_within_limits:
  fixes A B :: "('a::{plus,minus,times,divide}) Tensor"
  assumes "dense_row_major A" and "dense_row_major B" and "shape B = shape A"
  shows "(unat (n_elements A) \<le> 2 ^ 32 \<longrightarrow>
            operator_plus A B
              = Inr ((Tensor_ctor (shape A))\<lparr> data := elementwise (+) (data A) (data B) \<rparr>)
            \<and> operator_times h A B
              = Inr ((Tensor_ctor (shape A))\<lparr> data := elementwise (*) (data A) (data B),
                                               backward := Some (length h) \<rparr>,
                     h @ [\<lparr> kind = MultiplyBackward, tensors = [A, B],
                            backwards = [backward A, backward B] \<rparr>])
            \<and> operator_divide A B
              = Inr ((Tensor_ctor (shape A))\<lparr> data := elementwise divide (data A) (data B) \<rparr>))
       \<and> (unat (n_elements A) \<le> 2 ^ 31 \<longrightarrow>
            operator_minus A B
              = Inr ((Tensor_ctor (shape A))\<lparr> data := elementwise (-) (data A) (data B) \<rparr>))"
  using assms
  by (simp add: operator_plus_same_shape operator_times_same_shape operator_divide_same_shape
        operator_minus_same_shape)

text \<open>
  Beyond \<open>2 ^ 31\<close> elements: a thread of \<^verbatim>\<open>subtract\<close> whose number is \<open>2 ^ 31\<close> or more holds
  a negative \<^verbatim>\<open>int\<close>, which is sign-extended for the comparison with \<open>n\<close> and fails the
  guard: the thread writes nothing.
\<close>

lemma subtract_thread_negative:
  fixes n :: size_t
  assumes "2 ^ 31 \<le> k" and "k < 2 ^ 32" and "unat n \<le> 2 ^ 32"
  shows "subtract (of_nat (k div 256)) 256 (of_nat (k mod 256)) n r s1 s2 s a b buf = Inr buf"
proof -
  have "unat (scast (of_nat k :: c_int) :: size_t) = 2 ^ 64 - 2 ^ 32 + k"
    using assms(1,2) by (rule scast_thread_number_neg)
  moreover have "(2::nat) ^ 32 < 2 ^ 64 - 2 ^ 32 + k" using assms(1) by simp
  ultimately have "unat n < unat (scast (of_nat k :: c_int) :: size_t)"
    using assms(3) by simp
  then have "\<not> (scast (of_nat k :: c_int) :: size_t) < n"
    by (simp add: word_less_nat_alt)
  then show ?thesis
    by (simp add: subtract_def thread_number_256 Let_def)
qed

lemma launch_int_index_large:
  fixes n :: size_t
  assumes kern: "\<And>bi ti buf. kern bi (256 :: c_uint) ti buf
                   = subtract bi 256 ti n r S S S a b buf"
    and "length S = r" and "n \<noteq> 0 \<Longrightarrow> \<forall>i<r. S ! i \<noteq> 0" and "0 < r \<Longrightarrow> S ! (r - 1) = 1"
    and "r = 0 \<Longrightarrow> n = 1"
    and "length a = unat n" and "length b = unat n"
    and "2 ^ 31 < unat n" and "unat n \<le> 2 ^ 32"
  shows "\<exists>buf. launch_1d (ucast ((n + 255) div 256)) 256 kern (replicate (unat n) None) = Inr buf
           \<and> length buf = unat n
           \<and> (\<forall>p. 2 ^ 31 \<le> p \<and> p < unat n \<longrightarrow> buf ! p = None)"
proof -
  let ?G = "(unat n + 255) div 256 * 256"
  let ?init = "replicate (unat n) None :: 'a buffer"
  have G: "unat n \<le> ?G" "?G \<le> 2 ^ 32"
    using grid_covers [OF assms(9)] by simp_all
  define act where "act = (\<lambda>k. if k < 2 ^ 31 then Some (k, lift2 (-) (a ! k) (b ! k)) else None)"
  have run: "for_each [0..<?G] (\<lambda>k. kern (of_nat (k div 256)) 256 (of_nat (k mod 256))) ?init
          = Inr (apply_writes (map act [0..<?G]) ?init)"
  proof (rule for_each_writes [where n = "unat n"])
    fix k and buf :: "'a buffer"
    assume "k \<in> set [0..<?G]"
    with G have k32: "k < 2 ^ 32" by simp
    show "kern (of_nat (k div 256)) 256 (of_nat (k mod 256)) buf
            = (case act k of None \<Rightarrow> Inr buf | Some (p, v) \<Rightarrow> store buf p v)"
    proof (cases "k < 2 ^ 31")
      case True
      then have kn: "k < unat n" using assms(8) by simp
      from True have "0 \<le> sint (of_nat (k div 256) * 256 + of_nat (k mod 256) :: c_int)"
        by (simp only: thread_number_256 sint_thread_number)
      then have "subtract (of_nat (k div 256)) 256 (of_nat (k mod 256)) n r S S S a b buf
         = binary_thread (-) (scast (of_nat (k div 256) * 256 + of_nat (k mod 256) :: c_int)) n r S S S a b buf"
        by (rule subtract_thread)
      with True have "kern (of_nat (k div 256)) 256 (of_nat (k mod 256)) buf
                   = binary_thread (-) (of_nat k) n r S S S a b buf"
        by (simp only: kern thread_number_256 scast_thread_number)
      moreover have "k < 2 ^ 64" using k32 by (rule less_trans) simp
      then have "binary_thread (-) (of_nat k) n r S S S a b buf
           = (case (if k < unat n then Some (k, lift2 (-) (a ! k) (b ! k)) else None) of
                None \<Rightarrow> Inr buf | Some (p, v) \<Rightarrow> store buf p v)"
        using assms(2-7) by (intro binary_thread_dense) simp_all
      ultimately show ?thesis using True kn by (simp add: act_def)
    next
      case False
      then have "2 ^ 31 \<le> k" by simp
      then have "subtract (of_nat (k div 256)) 256 (of_nat (k mod 256)) n r S S S a b buf = Inr buf"
        using k32 assms(9) by (rule subtract_thread_negative)
      with False show ?thesis by (simp add: kern act_def)
    qed
  next
    fix k p v assume "act k = Some (p, v)"
    then show "p < unat n" using assms(8) by (auto simp: act_def split: if_splits)
  qed simp
  have "\<forall>p. 2 ^ 31 \<le> p \<and> p < unat n \<longrightarrow> apply_writes (map act [0..<?G]) ?init ! p = None"
  proof (intro allI impI)
    fix p assume p: "2 ^ 31 \<le> p \<and> p < unat n"
    have "\<forall>v. Some (p, v) \<notin> set (map act [0..<?G])"
      using p by (auto simp: act_def split: if_splits)
    then have "apply_writes (map act [0..<?G]) ?init ! p = ?init ! p"
      by (rule apply_writes_untouched)
    with p show "apply_writes (map act [0..<?G]) ?init ! p = None" by simp
  qed
  moreover have "launch_1d (ucast ((n + 255) div 256)) 256 kern ?init
                   = Inr (apply_writes (map act [0..<?G]) ?init)"
    using run by (simp only: launch_1d_within_limits [OF assms(9)])
  ultimately show ?thesis
    by (intro exI [of _ "apply_writes (map act [0..<?G]) ?init"]) (simp add: length_apply_writes)
qed

lemma operator_minus_int_index:
  fixes A B :: "('a::minus) Tensor"
  assumes "dense_row_major A" and "dense_row_major B" and "shape B = shape A"
    and "2 ^ 31 < unat (n_elements A)" and "unat (n_elements A) \<le> 2 ^ 32"
  shows "\<exists>R. operator_minus A B = Inr R \<and> shape R = shape A
           \<and> length (data R) = unat (n_elements A)
           \<and> (\<forall>p. 2 ^ 31 \<le> p \<and> p < unat (n_elements A) \<longrightarrow> data R ! p = None)"
proof -
  from assms have n: "n_elements A = count_elements (shape A)" "rank A = length (shape A)"
    and len: "length (data A) = unat (n_elements A)" "length (data B) = unat (n_elements A)"
    by (simp_all add: dense_row_major_def)
  have "\<exists>buf. launch_1d (ucast ((n_elements A + 255) div 256)) 256
          (\<lambda>b d t. subtract b d t (n_elements A) (rank A) (strides A) (strides A) (strides A)
                      (data A) (data B))
          (replicate (unat (n_elements A)) None) = Inr buf
         \<and> length buf = unat (n_elements A)
         \<and> (\<forall>p. 2 ^ 31 \<le> p \<and> p < unat (n_elements A) \<longrightarrow> buf ! p = None)"
    using dense_launch_conditions [OF assms(1)] len assms(4,5)
    by (intro launch_int_index_large [where a = "data A" and b = "data B"
          and S = "strides A" and r = "rank A"]) simp_all
  then obtain buf where
    "launch_1d (ucast ((n_elements A + 255) div 256)) 256
          (\<lambda>b d t. subtract b d t (n_elements A) (rank A) (strides A) (strides A) (strides A)
                      (data A) (data B))
          (replicate (unat (n_elements A)) None) = Inr buf"
    "length buf = unat (n_elements A)"
    "\<forall>p. 2 ^ 31 \<le> p \<and> p < unat (n_elements A) \<longrightarrow> buf ! p = None"
    by blast
  then show ?thesis
    by (simp add: operator_minus_def prepare_broadcast_same_shape [OF assms(1-3)] ctor_fields
          flip: n)
qed

lemma dense_from_scalar: "dense_row_major (from_scalar x s)"
  by (simp add: dense_row_major_def from_scalar_def Let_def Tensor_ctor_def)

lemma from_scalar_fields:
  "shape (from_scalar x s) = s"
  "n_elements (from_scalar x s) = count_elements s"
  "data (from_scalar x s) = replicate (unat (count_elements s)) (Some x)"
  by (simp_all add: from_scalar_def Let_def Tensor_ctor_def)

lemma count_3_2_30: "count_elements [3, 1073741824] = 3221225472"
  by (simp add: count_elements_def)

lemma unat_3_2_30: "unat (3221225472 :: size_t) = 3221225472"
  by simp

lemma elementwise_nth:
  "p < length xs \<Longrightarrow> p < length ys \<Longrightarrow> elementwise f xs ys ! p = lift2 f (xs ! p) (ys ! p)"
  by (simp add: elementwise_def)

text \<open>
  C7. Two tensors of shape \<open>[3, 2 ^ 30]\<close> filled with 1, dense and of one shape: \<^verbatim>\<open>-\<close>
  returns a tensor whose cell \<open>2 ^ 31\<close> was never written, where plain elementwise
  subtraction has 0; \<^verbatim>\<open>+\<close> on the same operands has the elementwise value 2 in that cell.
\<close>

theorem subtract_leaves_cells_unwritten:
  "dense_row_major (from_scalar (1::int) [3, 1073741824])
   \<and> (\<exists>R. operator_minus (from_scalar (1::int) [3, 1073741824]) (from_scalar 1 [3, 1073741824]) = Inr R
          \<and> shape R = [3, 1073741824] \<and> length (data R) = 3221225472
          \<and> data R ! 2147483648 = None)
   \<and> elementwise (-) (data (from_scalar (1::int) [3, 1073741824]))
                      (data (from_scalar (1::int) [3, 1073741824])) ! 2147483648 = Some 0
   \<and> (\<exists>R. operator_plus (from_scalar (1::int) [3, 1073741824]) (from_scalar 1 [3, 1073741824]) = Inr R
          \<and> data R ! 2147483648 = Some 2)"
proof -
  let ?A = "from_scalar (1::int) [3, 1073741824]"
  have d: "dense_row_major ?A" by (rule dense_from_scalar)
  have n: "unat (n_elements ?A) = 3221225472"
    by (simp only: from_scalar_fields count_3_2_30 unat_3_2_30)
  have lo: "2 ^ 31 < unat (n_elements ?A)" and hi: "unat (n_elements ?A) \<le> 2 ^ 32"
    by (simp_all only: n) simp_all
  have len: "length (data ?A) = 3221225472"
    by (simp only: from_scalar_fields count_3_2_30 unat_3_2_30 length_replicate)
  have cell: "data ?A ! 2147483648 = Some 1"
    by (simp only: from_scalar_fields count_3_2_30 unat_3_2_30) simp
  from operator_minus_int_index [OF d d refl lo hi] obtain R where
    R: "operator_minus ?A ?A = Inr R" "shape R = shape ?A" "length (data R) = unat (n_elements ?A)"
       "\<forall>p. 2 ^ 31 \<le> p \<and> p < unat (n_elements ?A) \<longrightarrow> data R ! p = None"
    by blast
  from R(4) have "data R ! 2147483648 = None" by (simp add: n)
  with R(1-3) have m: "\<exists>R. operator_minus ?A ?A = Inr R
          \<and> shape R = [3, 1073741824] \<and> length (data R) = 3221225472
          \<and> data R ! 2147483648 = None"
    by (simp add: n from_scalar_fields(1))
  have e: "elementwise (-) (data ?A) (data ?A) ! 2147483648 = Some 0"
    using len cell by (simp add: elementwise_nth lift2_def)
  have "elementwise (+) (data ?A) (data ?A) ! 2147483648 = Some 2"
    using len cell by (simp add: elementwise_nth lift2_def)
  then have p: "\<exists>R. operator_plus ?A ?A = Inr R \<and> data R ! 2147483648 = Some 2"
    by (simp add: operator_plus_same_shape [OF d d refl hi])
  from d m e p show ?thesis by blast
qed

section \<open>Backward call on a product\<close>


lemma requires_gradients_fresh_leaf:
  "requires_gradients h t = (t', h') \<Longrightarrow> backward t' = Some (length h) \<and> fresh_leaf h' (length h)"
  by (auto simp: requires_gradients_def fresh_leaf_def)















section \<open>The two-by-two product\<close>

text \<open>
  C6. \<^verbatim>\<open>mm\<close> of the \<open>2 \<times> 2\<close> tensors made from \<open>[1, 2, 3, 4]\<close> and \<open>[5, 6, 7, 8]\<close> is the
  \<open>2 \<times> 2\<close> tensor with the cells \<open>[19, 22, 43, 50]\<close>.
\<close>

theorem mm_2x2:
  "\<exists>a b. from_vector [1, 2, 3, 4] [2, 2] = Inr a \<and> from_vector [5, 6, 7, 8] [2, 2] = Inr b
     \<and> mm a b = Inr \<lparr> data = [Some (19 :: int), Some 22, Some 43, Some 50], shape = [2, 2],
                        rank = 2, strides = [2, 1], n_elements = 4, backward = None \<rparr>"
  using from_vector_examples(3,4) example_mm by blast

section \<open>Batched matrix product\<close>

lemma for_each_cong:
  "(\<And>i s. i \<in> set xs \<Longrightarrow> f i s = g i s) \<Longrightarrow> for_each xs f s = for_each xs g s"
  by (induction xs arbitrary: s) (simp_all split: sum.splits)

lemma matrix_multiply_write:
  fixes t1 t2 :: "('a::{zero,plus,times}) buffer"
  assumes "rnk = length S1" and "rnk = length S2" and "2 \<le> rnk"
  shows "matrix_multiply (bx, by, bz) (dx, dy) (tx, ty) rnk height width shared_dim S1 S2 t1 t2 out
     = (if (ucast (bx * dx + tx) :: size_t) < height \<and> (ucast (by * dy + ty) :: size_t) < width
        then (case mm_write rnk height width shared_dim S1 S2 t1 t2
                     (ucast bz) (ucast (bx * dx + tx)) (ucast (by * dy + ty)) of
                Inl e \<Rightarrow> Inl e
              | Inr None \<Rightarrow> Inr out
              | Inr (Some (p, v)) \<Rightarrow> store out p v)
        else Inr out)"
proof -
  have l: "load S1 (rnk - 2) = Inr (S1 ! (rnk - 2))" "load S1 (rnk - 1) = Inr (S1 ! (rnk - 1))"
    "load S2 (rnk - 2) = Inr (S2 ! (rnk - 2))" "load S2 (rnk - 1) = Inr (S2 ! (rnk - 1))"
    using assms by (simp_all add: load_def)
  have g: "\<not> rnk < 2" "\<not> length S1 < rnk" "\<not> length S2 < rnk"
    using assms by simp_all
  have loop: "for_each [0..<n]
        (\<lambda>i product.
           case load S1 (rnk - 1) of Inl e \<Rightarrow> Inl e | Inr s1_col \<Rightarrow>
           (case load S2 (rnk - 2) of Inl e \<Rightarrow> Inl e | Inr s2_row \<Rightarrow>
            (case load t1 (unat (start1 + of_nat i * s1_col)) of
               Inl e \<Rightarrow> Inl e
             | Inr x \<Rightarrow>
               (case load t2 (unat (start2 + of_nat i * s2_row)) of
                  Inl e \<Rightarrow> Inl e
                | Inr y \<Rightarrow> Inr (lift2 (+) product (lift2 (*) x y))))))
        (Some 0)
      = strided_dot t1 t2 start1 (S1 ! (rnk - 1)) start2 (S2 ! (rnk - 2)) n"
    for start1 start2 n
    unfolding strided_dot_def l sum.case ..
  show ?thesis
    unfolding matrix_multiply_def prod.case Let_def
    unfolding loop
    unfolding mm_write_def l sum.case
    using g by (simp del: One_nat_def split: sum.splits)
qed


lemma unat_scast_nonneg:
  fixes d :: c_int
  assumes "0 \<le> sint d"
  shows "unat (scast d :: size_t) = nat (sint d)" and "unat (scast d :: size_t) < 2 ^ 31"
proof -
  have "sint d < 2 ^ 31" using sint_lt [of d] by simp
  then have lt: "sint d < 2 ^ 64" by (rule less_trans) simp
  with assms have "sint d mod 2 ^ 64 = sint d" by (intro mod_pos_pos_trivial)
  then show u: "unat (scast d :: size_t) = nat (sint d)" by (simp only: unat_scast_size_t)
  show "unat (scast d :: size_t) < 2 ^ 31"
    using \<open>sint d < 2 ^ 31\<close> assms by (simp add: u)
qed

lemma tile_count:
  fixes h :: size_t
  assumes "unat h < 2 ^ 31"
  shows "unat (ucast ((h + 16 - 1) div 16) :: c_uint) = (unat h + 15) div 16"
proof -
  have e: "h + 16 - 1 = h + 15" by simp
  have "unat h + unat (15 :: size_t) < 2 ^ LENGTH(64)"
    using assms by simp
  then have "unat (h + 15) = unat h + unat (15 :: size_t)"
    by (rule unat_add_lem [THEN iffD1])
  then have "unat (h + 15) = unat h + 15" by simp
  then have d: "unat ((h + 16 - 1) div 16) = (unat h + 15) div 16"
    by (simp add: unat_div e)
  have "(unat h + 15) div 16 < 2 ^ 32"
    using assms by simp
  then have "take_bit LENGTH(32) ((unat h + 15) div 16) = (unat h + 15) div 16"
    by (simp add: take_bit_nat_eq_self)
  then show ?thesis
    by (simp only: unsigned_ucast_eq d)
qed


lemma ucast_small: "b < 2 ^ 32 \<Longrightarrow> unat (ucast (x :: size_t) :: c_uint) = b \<Longrightarrow> unat x < 2 ^ 32 \<Longrightarrow> unat x = b"
  by (simp add: unsigned_ucast_eq take_bit_nat_eq_self)

lemma unat_ucast_up: "unat (ucast (x :: c_uint) :: size_t) = unat x"
  by (simp add: unsigned_ucast_eq take_bit_nat_eq_self_iff) (rule less_trans [OF unsigned_less], simp)

lemma cell_unat:
  fixes z rw cw h w :: size_t
  assumes "unat z < N" and "unat rw < unat h" and "unat cw < unat w"
    and "N * (unat h * unat w) < 2 ^ 64"
  shows "unat (z * h * w + rw * w + cw) = unat z * (unat h * unat w) + unat rw * unat w + unat cw"
proof -
  let ?m = "unat z * (unat h * unat w) + unat rw * unat w + unat cw"
  have "unat rw * unat w + unat cw < unat h * unat w"
  proof -
    have "unat rw * unat w + unat cw < (unat rw + 1) * unat w" using assms(3) by simp
    also have "\<dots> \<le> unat h * unat w" using assms(2) by (intro mult_le_mono1) simp
    finally show ?thesis .
  qed
  then have "?m < (unat z + 1) * (unat h * unat w)" by simp
  also have "\<dots> \<le> N * (unat h * unat w)" using assms(1) by (intro mult_le_mono1) simp
  finally have b: "?m < 2 ^ 64" using assms(4) by simp
  have "z * h * w + rw * w + cw = (of_nat ?m :: size_t)"
    by (simp add: mult.assoc)
  then have "unat (z * h * w + rw * w + cw) = ?m mod 2 ^ LENGTH(64)"
    by (simp only: unat_of_nat)
  with b show ?thesis by simp
qed


lemma mm_eq:
  fixes A B :: "('a::{zero,plus,times}) Tensor"
  assumes "2 \<le> length (shape A)" and "shape B \<noteq> []"
  shows "mm A B =
     (if mm_height A * mm_width B = 0 then Inl DivideByZero
      else if length (strides A) < length (shape A) \<or> length (strides B) < length (shape A)
      then Inl OutOfBounds
      else (case launch_3d (ucast ((mm_height A + 16 - 1) div 16),
                          ucast ((mm_width B + 16 - 1) div 16), ucast (mm_batch A B)) (16, 16)
                 (\<lambda>b d t. matrix_multiply b d t (length (shape A)) (mm_height A) (mm_width B)
                             (mm_shared A)
                             (take (length (shape A)) (strides A))
                             (take (length (shape A)) (strides B))
                             (data A) (data B))
                 (replicate (unat (count_elements (mm_shape A B))) None) of
              Inl e \<Rightarrow> Inl e
            | Inr buf \<Rightarrow> Inr ((Tensor_ctor (mm_shape A B))\<lparr> data := buf \<rparr>)))"
proof -
  from assms have ne: "shape A \<noteq> []" by auto
  show ?thesis
    using assms ne
    by (simp add: mm_def Let_def ctor_fields mm_batch_def mm_shape_def mm_height_def
          mm_width_def mm_shared_def last_conv_nth cong: sum.case_cong)
qed


lemma grid_threads_mem:
  "((bx, by, bz), (tx, ty)) \<in> set (grid_threads (gx, gy, gz) (dx, dy))
     \<longleftrightarrow> bx < unat gx \<and> by < unat gy \<and> bz < unat gz \<and> tx < unat dx \<and> ty < unat dy"
  by (auto simp: grid_threads_def)




lemma unat_ucast_batch:
  fixes x :: size_t
  assumes "unat x < 2 ^ 32"
  shows "unat (ucast x :: c_uint) = unat x"
  using assms by (simp add: unsigned_ucast_eq take_bit_nat_eq_self)





lemma view_made: "transpose 0 1 matrix_1_2_3_4 = Inr matrix_1_2_3_4_transposed"
  by code_simp

lemma example_mm_view:
  "mm matrix_1_2_3_4_transposed matrix_5_6_7_8
     = Inr \<lparr> data = [Some 26, Some 30, Some 38, Some 44], shape = [2, 2], rank = 2,
              strides = [2, 1], n_elements = 4, backward = None \<rparr>"
  by code_simp





text \<open>
  Beyond those limits the device refuses the launch: \<^verbatim>\<open>mm\<close> returns the tensor as the
  constructor made it, with no cell written.
\<close>

lemma mm_launch_refused:
  fixes A B :: "('a::{zero,plus,times}) Tensor"
  assumes "2 \<le> length (shape A)" and "shape B \<noteq> []"
    and "mm_height A * mm_width B \<noteq> 0"
    and "length (shape A) \<le> length (strides A)" and "length (shape A) \<le> length (strides B)"
    and "65535 < (ucast ((mm_width B + 16 - 1) div 16) :: c_uint)
           \<or> 65535 < (ucast (mm_batch A B) :: c_uint)"
  shows "mm A B = Inr (Tensor_ctor (mm_shape A B))"
proof -
  have "(Tensor_ctor (mm_shape A B) :: 'a Tensor)
          \<lparr> data := replicate (unat (count_elements (mm_shape A B))) None \<rparr>
        = Tensor_ctor (mm_shape A B)"
    by (simp add: Tensor_ctor_def)
  with assms(3-6) show ?thesis
    by (simp add: mm_eq [OF assms(1,2)] launch_3d_def)
qed

lemma mm_65536_batches:
  "mm (from_scalar (1 :: int) [65536, 1, 1]) (from_scalar 1 [65536, 1, 1])
     = Inr (Tensor_ctor [65536, 1, 1])"
  "data (Tensor_ctor [65536, 1, 1] :: int Tensor) = replicate 65536 None"
proof -
  let ?A = "from_scalar (1 :: int) [65536, 1, 1]"
  have c: "count_elements [65536, 1, 1] = 65536" by (simp add: count_elements_def)
  have d: "mm_height ?A = 1" "mm_width ?A = 1" "mm_shape ?A ?A = [65536, 1, 1]"
    by (simp_all add: mm_height_def mm_width_def mm_shape_def from_scalar_fields)
  have b: "mm_batch ?A ?A = 65536" by (simp add: mm_batch_def d c)
  have s: "length (strides ?A) = 3"
    by (simp add: from_scalar_def Let_def ctor_strides_length)
  have "mm ?A ?A = Inr (Tensor_ctor (mm_shape ?A ?A))"
    by (rule mm_launch_refused) (simp_all add: d b s from_scalar_fields)
  then show "mm ?A ?A = Inr (Tensor_ctor [65536, 1, 1])" by (simp only: d)
  show "data (Tensor_ctor [65536, 1, 1] :: int Tensor) = replicate 65536 None"
    by (simp add: ctor_fields c)
qed

lemma for_each_returns:
  assumes "\<And>k s. k \<in> set ks \<Longrightarrow> P s \<Longrightarrow> \<exists>s'. body k s = Inr s' \<and> P s'" and "P s0"
  shows "\<exists>s'. for_each ks body s0 = Inr s' \<and> P s'"
  using assms
proof (induction ks arbitrary: s0)
  case Nil
  then show ?case by simp
next
  case (Cons k ks)
  from Cons.prems(1) [of k s0] Cons.prems(2) obtain s1 where s1: "body k s0 = Inr s1" "P s1"
    by auto
  have "\<exists>s'. for_each ks body s1 = Inr s' \<and> P s'"
  proof (rule Cons.IH)
    fix j s assume "j \<in> set ks" "P s"
    then show "\<exists>s'. body j s = Inr s' \<and> P s'" using Cons.prems(1) [of j s] by simp
  qed (rule s1(2))
  with s1(1) show ?case by simp
qed

lemma strided_dot_returns:
  fixes xs ys :: "('a::{zero,plus,times}) buffer"
  assumes "\<And>i. i < n \<Longrightarrow> unat (start1 + of_nat i * step1) < length xs
                      \<and> unat (start2 + of_nat i * step2) < length ys"
  shows "\<exists>v. strided_dot xs ys start1 step1 start2 step2 n = Inr v"
proof -
  have "\<exists>s'. for_each [0..<n]
       (\<lambda>i acc. case load xs (unat (start1 + of_nat i * step1)) of Inl e \<Rightarrow> Inl e | Inr x \<Rightarrow>
                 (case load ys (unat (start2 + of_nat i * step2)) of Inl e \<Rightarrow> Inl e | Inr y \<Rightarrow>
                    Inr (lift2 (+) acc (lift2 (*) x y))))
       (Some 0) = Inr s' \<and> True"
  proof (rule for_each_upt_invariant [where I = "\<lambda>k acc. True"])
    fix i and acc :: "'a option" assume i: "i < n"
    from assms [OF i]
    show "\<exists>s'. (case load xs (unat (start1 + of_nat i * step1)) of Inl e \<Rightarrow> Inl e | Inr x \<Rightarrow>
                 (case load ys (unat (start2 + of_nat i * step2)) of Inl e \<Rightarrow> Inl e | Inr y \<Rightarrow>
                    Inr (lift2 (+) acc (lift2 (*) x y)))) = Inr s' \<and> True"
      by (simp add: load_def)
  qed simp
  then show ?thesis by (simp add: strided_dot_def)
qed

text \<open>
  Within the limits of the launch, \<^verbatim>\<open>mm\<close> returns whenever the sizes are positive and
  every cell that its threads read lies inside the operands' buffers.
\<close>

lemma mm_returns:
  fixes A B :: "('a::{zero,plus,times}) Tensor"
  assumes rk: "2 \<le> length (shape A)" and nB: "shape B \<noteq> []"
    and ls: "length (shape A) \<le> length (strides A)" "length (shape A) \<le> length (strides B)"
    and h: "0 < sint (shape A ! (length (shape A) - 2))"
    and w: "0 < unat (mm_width B)" "unat (mm_width B) \<le> 1048560"
    and s: "0 \<le> sint (last (shape A))"
    and n: "unat (mm_batch A B) \<le> 65535"
    and inb: "\<And>b r c i. b < unat (mm_batch A B) \<Longrightarrow> r < unat (mm_height A)
               \<Longrightarrow> c < unat (mm_width B) \<Longrightarrow> i < unat (mm_shared A) \<Longrightarrow>
               unat (of_nat b * mm_height A * mm_shared A
                       + of_nat r * strides A ! (length (shape A) - 2)
                       + of_nat i * strides A ! (length (shape A) - 1)) < length (data A)
             \<and> unat (of_nat b * mm_width B * mm_shared A
                       + of_nat c * strides B ! (length (shape A) - 1)
                       + of_nat i * strides B ! (length (shape A) - 2)) < length (data B)"
  shows "\<exists>R. mm A B = Inr R"
proof -
  let ?h = "mm_height A" and ?w = "mm_width B" and ?s = "mm_shared A"
  let ?rk = "length (shape A)"
  let ?n = "count_elements (mm_shape A B)"
  let ?S1 = "take ?rk (strides A)" and ?S2 = "take ?rk (strides B)"
  let ?gx = "ucast ((?h + 16 - 1) div 16) :: c_uint"
  let ?gy = "ucast ((?w + 16 - 1) div 16) :: c_uint"
  let ?gz = "ucast (mm_batch A B) :: c_uint"
  let ?init = "replicate (unat ?n) None :: 'a buffer"
  have h0: "0 \<le> sint (shape A ! (?rk - 2))" using h by simp
  have H: "unat ?h < 2 ^ 31" and H0: "0 < unat ?h"
    using unat_scast_nonneg [OF h0] h by (simp_all add: mm_height_def)
  have W: "unat ?w < 2 ^ 31" using w(2) by simp
  have S: "unat ?s < 2 ^ 31"
    using unat_scast_nonneg(2) [OF s] by (simp add: mm_shared_def)
  have "unat ?h * unat ?w < 2 ^ 31 * 2 ^ 31"
    using H W by (intro mult_strict_mono) simp_all
  then have "unat ?h * unat ?w < 2 ^ LENGTH(64)" by simp
  then have hw: "unat (?h * ?w) = unat ?h * unat ?w"
    by (rule unat_mult_lem [THEN iffD1])
  have nz: "?h * ?w \<noteq> 0"
  proof
    assume "?h * ?w = 0"
    then have "unat (?h * ?w) = 0" by simp
    with hw H0 w(1) show False by simp
  qed
  have N: "unat (mm_batch A B) = unat ?n div (unat ?h * unat ?w)"
    by (simp add: mm_batch_def unat_div hw)
  have cover: "unat (mm_batch A B) * (unat ?h * unat ?w) \<le> unat ?n"
    by (simp add: N)
  have N32: "unat (mm_batch A B) < 2 ^ 32" using n by simp
  have gz: "unat ?gz = unat (mm_batch A B)"
    using N32 by (rule unat_ucast_batch)
  have gx: "unat ?gx = (unat ?h + 15) div 16" using H by (rule tile_count)
  have gy: "unat ?gy = (unat ?w + 15) div 16" using W by (rule tile_count)
  have "(unat ?h + 15) div 16 \<le> 2147483647" "(unat ?w + 15) div 16 \<le> 65535"
    using H w(2) by simp_all
  then have lim: "\<not> 2147483647 < ?gx" "\<not> 65535 < ?gy" "\<not> 65535 < ?gz"
    unfolding word_less_nat_alt gx gy gz using n by simp_all
  have lens: "?rk = length ?S1" "?rk = length ?S2"
    using ls by simp_all
  have nth: "?S1 ! (?rk - 2) = strides A ! (?rk - 2)" "?S1 ! (?rk - 1) = strides A ! (?rk - 1)"
      "?S2 ! (?rk - 2) = strides B ! (?rk - 2)" "?S2 ! (?rk - 1) = strides B ! (?rk - 1)"
    using rk by simp_all
  have sh: "\<not> 2147483647 < ?s"
    using S by (simp add: word_less_nat_alt)
  have NHW: "unat (mm_batch A B) * (unat ?h * unat ?w) < 2 ^ 64"
    using cover unsigned_less [of ?n, where 'a = nat] by simp
  let ?ks = "grid_threads (?gx, ?gy, ?gz) (16, 16)"
  let ?body = "\<lambda>((bx, by, bz), (tx, ty)).
       matrix_multiply (of_nat bx, of_nat by, of_nat bz) (16, 16) (of_nat tx, of_nat ty)
         ?rk ?h ?w ?s ?S1 ?S2 (data A) (data B)"
  have thread: "\<exists>buf'. ?body k buf = Inr buf' \<and> length buf' = unat ?n"
    if k: "k \<in> set ?ks" and l: "length buf = unat ?n" for k and buf :: "'a buffer"
  proof -
    obtain bx "by" bz tx ty where kk: "k = ((bx, by, bz), (tx, ty))"
      by (metis prod_cases3 surj_pair)
    let ?Z = "ucast (of_nat bz :: c_uint) :: size_t"
    let ?R = "ucast ((of_nat bx :: c_uint) * 16 + of_nat tx) :: size_t"
    let ?C = "ucast ((of_nat by :: c_uint) * 16 + of_nat ty) :: size_t"
    from k have bz: "bz < unat (mm_batch A B)" by (simp add: kk grid_threads_mem gz)
    then have "bz < 2 ^ 32" using N32 by simp
    then have Zw: "?Z = of_nat bz" and Z: "unat ?Z = bz"
      by (simp_all add: ucast_thread_number unat_size_t_of_nat)
    show ?thesis
    proof (cases "?R < ?h \<and> ?C < ?w")
      case False
      then show ?thesis
        unfolding kk prod.case
        using l by (auto simp: matrix_multiply_write [OF lens rk])
    next
      case True
      then have gl: "unat ?R < unat ?h" "unat ?C < unat ?w" by (simp_all add: word_less_nat_alt)
      have RC: "of_nat (unat ?R) = ?R" "of_nat (unat ?C) = ?C"
        by (simp_all only: of_nat_unat ucast_id)
      have "\<exists>v. strided_dot (data A) (data B)
                  (?Z * ?h * ?s + ?R * strides A ! (?rk - 2)) (strides A ! (?rk - 1))
                  (?Z * ?w * ?s + ?C * strides B ! (?rk - 1)) (strides B ! (?rk - 2))
                  (unat ?s) = Inr v"
      proof (rule strided_dot_returns)
        fix i assume "i < unat ?s"
        from inb [OF bz gl this]
        show "unat (?Z * ?h * ?s + ?R * strides A ! (?rk - 2) + of_nat i * strides A ! (?rk - 1))
                < length (data A)
            \<and> unat (?Z * ?w * ?s + ?C * strides B ! (?rk - 1) + of_nat i * strides B ! (?rk - 2))
                < length (data B)"
          by (simp only: RC Zw)
      qed
      then obtain v where v: "strided_dot (data A) (data B)
                  (?Z * ?h * ?s + ?R * strides A ! (?rk - 2)) (strides A ! (?rk - 1))
                  (?Z * ?w * ?s + ?C * strides B ! (?rk - 1)) (strides B ! (?rk - 2))
                  (unat ?s) = Inr v" by blast
      have cell: "unat (?Z * ?h * ?w + ?R * ?w + ?C)
                    = unat ?Z * (unat ?h * unat ?w) + unat ?R * unat ?w + unat ?C"
        using bz gl NHW by (intro cell_unat [where N = "unat (mm_batch A B)"]) (simp_all add: Z)
      have "unat ?R * unat ?w + unat ?C < unat ?h * unat ?w"
      proof -
        have "unat ?R * unat ?w + unat ?C < (unat ?R + 1) * unat ?w" using gl(2) by simp
        also have "\<dots> \<le> unat ?h * unat ?w" using gl(1) by (intro mult_le_mono1) simp
        finally show ?thesis .
      qed
      then have "bz * (unat ?h * unat ?w) + unat ?R * unat ?w + unat ?C
                   < (bz + 1) * (unat ?h * unat ?w)" by simp
      also have "\<dots> \<le> unat (mm_batch A B) * (unat ?h * unat ?w)"
        using bz by (intro mult_le_mono1) simp
      finally have p: "unat (?Z * ?h * ?w + ?R * ?w + ?C) < length buf"
        using cover by (simp add: cell Z l)
      have wr: "mm_write ?rk ?h ?w ?s ?S1 ?S2 (data A) (data B) ?Z ?R ?C
                  = Inr (Some (unat (?Z * ?h * ?w + ?R * ?w + ?C), v))"
        unfolding mm_write_def nth using rk lens sh v by simp
      show ?thesis
        unfolding kk prod.case
        using True p l by (simp add: matrix_multiply_write [OF lens rk] wr store_def)
    qed
  qed
  have "\<exists>buf. for_each ?ks ?body ?init = Inr buf \<and> length buf = unat ?n"
    by (rule for_each_returns [where P = "\<lambda>buf. length buf = unat ?n"]) (use thread in simp_all)
  then obtain buf where "for_each ?ks ?body ?init = Inr buf" by blast
  then have "launch_3d (?gx, ?gy, ?gz) (16, 16)
               (\<lambda>b d t. matrix_multiply b d t ?rk ?h ?w ?s ?S1 ?S2 (data A) (data B)) ?init
             = Inr buf"
    using lim by (simp add: launch_3d_def)
  then show ?thesis
    using nz ls by (simp add: mm_eq [OF rk nB])
qed

text \<open>
  On cells that have all been written the serial dot product is the sum of the products.
\<close>

lemma strided_dot_initialised:
  fixes xs ys :: "('a::semiring_0) buffer"
  assumes "\<And>i. i < n \<Longrightarrow> unat (start1 + of_nat i * step1) < length xs
                      \<and> xs ! unat (start1 + of_nat i * step1) = Some (f i)"
    and "\<And>i. i < n \<Longrightarrow> unat (start2 + of_nat i * step2) < length ys
                      \<and> ys ! unat (start2 + of_nat i * step2) = Some (g i)"
  shows "strided_dot xs ys start1 step1 start2 step2 n = Inr (Some (\<Sum>i<n. f i * g i))"
proof -
  have "\<exists>s'. for_each [0..<n]
       (\<lambda>i acc. case load xs (unat (start1 + of_nat i * step1)) of Inl e \<Rightarrow> Inl e | Inr x \<Rightarrow>
                 (case load ys (unat (start2 + of_nat i * step2)) of Inl e \<Rightarrow> Inl e | Inr y \<Rightarrow>
                    Inr (lift2 (+) acc (lift2 (*) x y))))
       (Some 0) = Inr s' \<and> s' = Some (\<Sum>i<n. f i * g i)"
  proof (rule for_each_upt_invariant [where I = "\<lambda>k acc. acc = Some (\<Sum>i<k. f i * g i)"])
    show "Some (0::'a) = Some (\<Sum>i<0. f i * g i)" by simp
  next
    fix i acc assume i: "i < n" and acc: "acc = Some (\<Sum>j<i. f j * g j)"
    from assms(1) [OF i] assms(2) [OF i] acc
    show "\<exists>s'. (case load xs (unat (start1 + of_nat i * step1)) of Inl e \<Rightarrow> Inl e | Inr x \<Rightarrow>
                 (case load ys (unat (start2 + of_nat i * step2)) of Inl e \<Rightarrow> Inl e | Inr y \<Rightarrow>
                    Inr (lift2 (+) acc (lift2 (*) x y)))) = Inr s'
            \<and> s' = Some (\<Sum>j<Suc i. f j * g j)"
      by (simp add: load_def lift2_def)
  qed
  then show ?thesis by (simp add: strided_dot_def)
qed

end
